theory Spec2Isabelle
  imports Complex_Main
begin

section \<open>Values, errors and tables\<close>

text \<open>
  The program is \<^verbatim>\<open>src/app.py\<close>; the function under study is \<^verbatim>\<open>hybrid_recommend\<close>
  (lines 113-138). Scores are pandas/numpy machine numbers, float64 as the prediction
  and similarity computations produce them. They are modelled as exact rationals
  together with NaN, the value of \<^verbatim>\<open>0/0\<close>. The entries of the loaded tables are finite
  numbers. The model does not round, and it has neither the overflow of float64 nor the
  wrap-around of an integer table. A general theorem below that depends on the value of
  an arithmetic result is therefore stated only for entries within
  \<open>within_machine_range\<close> (magnitudes up to \<open>2^61\<close>, where no subtraction of two entries
  overflows in float64 or wraps in int64), and only in terms that a monotone rounding
  keeps: equality of results computed from equal operands, \<open>\<le>\<close> between results, and
  the exact values 0, 1 and NaN. The evaluations at concrete inputs show exact scores,
  of which the code returns the nearest float64.
\<close>

datatype fval = Num rat | NaN

text \<open>A raised Python exception is the left summand of the result.\<close>

datatype value_error = DuplicateLabels | ZeroSizeReduction | LengthMismatch

datatype py_error = KeyError | IndexError | ValueError value_error

text \<open>
  One row of \<^verbatim>\<open>movies_df\<close> as \<^verbatim>\<open>load_movies\<close> builds it: the columns \<^verbatim>\<open>id\<close>,
  \<^verbatim>\<open>title\<close> and \<^verbatim>\<open>genres_list\<close>. The frame comes from \<^verbatim>\<open>pd.read_csv\<close>, so
  its index is the range of row positions; a frame is the list of its rows in order,
  and a filtered frame keeps each row's label beside it.
\<close>

record movie =
  movie_id :: int
  title :: string
  genres_list :: "string list"

text \<open>One row of the value \<^verbatim>\<open>hybrid_recommend\<close> returns (line 138).\<close>

record recommendation =
  rec_title :: string
  poster :: "string option"
  trailer :: "string option"
  hybrid_score :: fval
  rec_id :: int

text \<open>
  \<^verbatim>\<open>preds_df\<close> is a DataFrame: user id to a row, the row a Series of scores under
  column labels, in column order. \<^verbatim>\<open>similarity\<close> is the pickled similarity matrix,
  a two-dimensional numpy array, row by row.
\<close>

type_synonym cf_row = "(nat \<times> rat) list"
type_synonym preds = "int \<Rightarrow> cf_row option"

section \<open>Float arithmetic\<close>

text \<open>
  NaN is absorbing. A division by zero whose numerator is not zero would be an infinity;
  in this program a zero divisor is \<^verbatim>\<open>max - min\<close> of a constant vector, where every
  numerator \<^verbatim>\<open>x - min\<close> is zero as well (lemma \<open>zero_divisor_zero_numerator\<close> below), so
  only \<^verbatim>\<open>0/0\<close> occurs.
\<close>

fun fsub :: "fval \<Rightarrow> fval \<Rightarrow> fval" where
  "fsub (Num a) (Num b) = Num (a - b)"
| "fsub _ _ = NaN"

fun fadd :: "fval \<Rightarrow> fval \<Rightarrow> fval" where
  "fadd (Num a) (Num b) = Num (a + b)"
| "fadd _ _ = NaN"

fun fmul :: "fval \<Rightarrow> fval \<Rightarrow> fval" where
  "fmul (Num a) (Num b) = Num (a * b)"
| "fmul _ _ = NaN"

fun fdiv :: "fval \<Rightarrow> fval \<Rightarrow> fval" where
  "fdiv (Num a) (Num b) = (if b = 0 then NaN else Num (a / b))"
| "fdiv _ _ = NaN"

text \<open>
  \<^verbatim>\<open>.min()\<close> and \<^verbatim>\<open>.max()\<close> of a pandas Series: NaN when the Series is empty.
\<close>

fun series_min :: "rat list \<Rightarrow> fval" where
  "series_min [] = NaN"
| "series_min (x # xs) = Num (fold min xs x)"

fun series_max :: "rat list \<Rightarrow> fval" where
  "series_max [] = NaN"
| "series_max (x # xs) = Num (fold max xs x)"

text \<open>
  Lines 123 and 128, the same expression twice:
  \<^verbatim>\<open>(v - v.min()) / (v.max() - v.min())\<close>, elementwise.
\<close>

definition minmax :: "rat list \<Rightarrow> fval list" where
  "minmax v =
     (let lo = series_min v; hi = series_max v
      in map (\<lambda>x. fdiv (fsub (Num x) lo) (fsub hi lo)) v)"

section \<open>The steps of hybrid\_recommend\<close>

text \<open>
  Lines 114-117. \<^verbatim>\<open>selected_genres\<close> is not a parameter of the Python function: it is
  the module-level variable the sidebar's multiselect sets (line 108). The model passes
  it explicitly. The multiselect offers the genres that occur in the catalog (line 107),
  so the selection is empty when the catalog is.
\<close>

definition filtered_movies :: "string list \<Rightarrow> movie list \<Rightarrow> (nat \<times> movie) list" where
  "filtered_movies selected_genres movies_df =
     (if selected_genres \<noteq> [] then
        filter (\<lambda>(i, m). list_ex (\<lambda>g. g \<in> set (genres_list m)) selected_genres)
          (enumerate 0 movies_df)
      else enumerate 0 movies_df)"

text \<open>Line 122: \<^verbatim>\<open>preds_df.loc[user_id]\<close> raises KeyError for an unknown label.\<close>

definition loc_user :: "preds \<Rightarrow> int \<Rightarrow> py_error + cf_row" where
  "loc_user preds_df user_id =
     (case preds_df user_id of None \<Rightarrow> Inl KeyError | Some r \<Rightarrow> Inr r)"

text \<open>
  Line 124: \<^verbatim>\<open>reindex(labels, fill_value=0)\<close>. pandas refuses to reindex a Series whose
  own labels repeat; a label the Series lacks gets the fill value, a label it has keeps
  its value (also when that value is NaN).
\<close>

definition reindex :: "(nat \<times> fval) list \<Rightarrow> nat list \<Rightarrow> py_error + fval list" where
  "reindex s labels =
     (if \<not> distinct (map fst s) then Inl (ValueError DuplicateLabels)
      else Inr (map (\<lambda>l. case map_of s l of Some v \<Rightarrow> v | None \<Rightarrow> Num 0) labels))"

text \<open>Lines 122-124 together: the CF scores over the candidates' labels.\<close>

definition cf_norm :: "preds \<Rightarrow> int \<Rightarrow> nat list \<Rightarrow> py_error + fval list" where
  "cf_norm preds_df user_id labels =
     (case loc_user preds_df user_id of
        Inl e \<Rightarrow> Inl e
      | Inr cf_scores_user \<Rightarrow>
          reindex (zip (map fst cf_scores_user) (minmax (map snd cf_scores_user))) labels)"

text \<open>
  Line 126: the label of the first candidate row with the seed title; \<^verbatim>\<open>[0]\<close> on an
  empty selection raises IndexError.
\<close>

definition seed_idx :: "(nat \<times> movie) list \<Rightarrow> string \<Rightarrow> py_error + nat" where
  "seed_idx fm movie_title =
     (case filter (\<lambda>(i, m). title m = movie_title) fm of
        [] \<Rightarrow> Inl IndexError
      | (i, m) # _ \<Rightarrow> Inr i)"

text \<open>
  Lines 127-129. \<^verbatim>\<open>similarity[idx]\<close> is the whole matrix row (IndexError past the last
  row); numpy's \<^verbatim>\<open>min\<close> of an empty array raises ValueError; the normalised row is then
  wrapped in a Series over the candidates' labels, and the Series constructor raises
  ValueError unless the row is exactly as long as that index. (Old pandas versions
  repeat a one-element array instead; a row of a matrix as large as the catalog has one
  element only when the catalog has one row, and then the index has one label too.)
\<close>

definition content_norm :: "rat list list \<Rightarrow> nat \<Rightarrow> nat list \<Rightarrow> py_error + fval list" where
  "content_norm similarity idx labels =
     (if idx \<ge> length similarity then Inl IndexError
      else let row = similarity ! idx in
        if row = [] then Inl (ValueError ZeroSizeReduction)
        else if length (minmax row) \<noteq> length labels then Inl (ValueError LengthMismatch)
        else Inr (minmax row))"

text \<open>Line 131, elementwise over two Series with the same index.\<close>

definition hybrid_scores :: "rat \<Rightarrow> fval list \<Rightarrow> fval list \<Rightarrow> fval list" where
  "hybrid_scores alpha cf ct =
     map2 (\<lambda>c d. fadd (fmul (Num alpha) c) (fmul (Num (1 - alpha)) d)) cf ct"

text \<open>
  Line 133, \<^verbatim>\<open>sort_values(ascending=False)\<close>. pandas computes the order as follows
  (\<^verbatim>\<open>nargsort\<close>): the positions of the NaN entries are set aside in their original order;
  the other entries are reversed, sorted ascending by numpy's \<^verbatim>\<open>argsort\<close>, and the
  resulting order is reversed again; the NaN positions are appended
  (\<^verbatim>\<open>na_position='last'\<close>). The sort is numpy's default kind, \<^verbatim>\<open>quicksort\<close>, whose
  algorithm is not part of this repository: it is the parameter \<open>argsort\<close>, a function
  from the values to the positions in ascending order of value.
\<close>

fun the_num :: "fval \<Rightarrow> rat" where
  "the_num (Num a) = a"
| "the_num NaN = 0"

definition nargsort_desc :: "(rat list \<Rightarrow> nat list) \<Rightarrow> fval list \<Rightarrow> nat list" where
  "nargsort_desc argsort items =
     (let idx = [0..<length items];
          non_nan_idx = rev (filter (\<lambda>i. items ! i \<noteq> NaN) idx);
          non_nans = map (\<lambda>i. the_num (items ! i)) non_nan_idx;
          nan_idx = filter (\<lambda>i. items ! i = NaN) idx
      in rev (map (\<lambda>k. non_nan_idx ! k) (argsort non_nans)) @ nan_idx)"

text \<open>\<^verbatim>\<open>head(n)\<close>: the first \<open>n\<close> entries; for a negative \<open>n\<close>, all but the last \<open>-n\<close>.\<close>

definition head :: "int \<Rightarrow> 'a list \<Rightarrow> 'a list" where
  "head n xs = (if 0 \<le> n then take (nat n) xs else take (length xs - nat (- n)) xs)"

text \<open>
  Lines 133-138. \<^verbatim>\<open>top_idx\<close> holds labels of \<^verbatim>\<open>hybrid_scores\<close>, whose index is that of
  \<^verbatim>\<open>filtered_movies\<close> and has no repeated label, so \<^verbatim>\<open>.loc[top_idx]\<close> selects the rows
  at the sorted positions; \<open>top_idx\<close> is the list of these positions. \<^verbatim>\<open>fetch_poster\<close>
  and \<^verbatim>\<open>fetch_trailer\<close> are the HTTP lookups of lines 50-72, which return a URL or
  None; they are parameters of the model.
\<close>

definition top_idx :: "(rat list \<Rightarrow> nat list) \<Rightarrow> fval list \<Rightarrow> int \<Rightarrow> nat list" where
  "top_idx argsort scores top_n = head top_n (nargsort_desc argsort scores)"

definition rec_row ::
  "(int \<Rightarrow> string option) \<Rightarrow> (int \<Rightarrow> string option) \<Rightarrow> (nat \<times> movie) list \<Rightarrow> fval list \<Rightarrow>
   nat \<Rightarrow> recommendation" where
  "rec_row fetch_poster fetch_trailer fm scores p =
     (let m = snd (fm ! p) in
        \<lparr>rec_title = title m, poster = fetch_poster (movie_id m),
         trailer = fetch_trailer (movie_id m), hybrid_score = scores ! p,
         rec_id = movie_id m\<rparr>)"

definition recommendations ::
  "(rat list \<Rightarrow> nat list) \<Rightarrow> (int \<Rightarrow> string option) \<Rightarrow> (int \<Rightarrow> string option) \<Rightarrow>
   (nat \<times> movie) list \<Rightarrow> fval list \<Rightarrow> int \<Rightarrow> recommendation list" where
  "recommendations argsort fetch_poster fetch_trailer fm scores top_n =
     map (rec_row fetch_poster fetch_trailer fm scores) (top_idx argsort scores top_n)"

text \<open>The whole function. Line 120 returns an empty frame.\<close>

definition hybrid_recommend ::
  "(rat list \<Rightarrow> nat list) \<Rightarrow> (int \<Rightarrow> string option) \<Rightarrow> (int \<Rightarrow> string option) \<Rightarrow>
   string list \<Rightarrow> int \<Rightarrow> string \<Rightarrow> movie list \<Rightarrow> preds \<Rightarrow> rat list list \<Rightarrow> int \<Rightarrow> rat \<Rightarrow>
   py_error + recommendation list" where
  "hybrid_recommend argsort fetch_poster fetch_trailer selected_genres
      user_id movie_title movies_df preds_df similarity top_n alpha =
     (let fm = filtered_movies selected_genres movies_df in
      if movie_title \<notin> set (map (title \<circ> snd) fm) then Inr []
      else
        case cf_norm preds_df user_id (map fst fm) of
          Inl e \<Rightarrow> Inl e
        | Inr cf \<Rightarrow>
            (case seed_idx fm movie_title of
               Inl e \<Rightarrow> Inl e
             | Inr idx \<Rightarrow>
                 (case content_norm similarity idx (map fst fm) of
                    Inl e \<Rightarrow> Inl e
                  | Inr ct \<Rightarrow>
                      Inr (recommendations argsort fetch_poster fetch_trailer fm
                             (hybrid_scores alpha cf ct) top_n))))"

section \<open>The range of the machine numbers\<close>

text \<open>
  Entries of magnitude at most \<open>2^61\<close>: the difference of two of them is below the
  largest float64 and below \<open>2^63\<close>, so line 123 and line 128 subtract without overflow
  in a float64 table and without wrap-around in an int64 table.
\<close>

definition within_machine_range :: "rat list \<Rightarrow> bool" where
  "within_machine_range v = list_all (\<lambda>x. \<bar>x\<bar> \<le> 2 ^ 61) v"

text \<open>
  \<open>score_le x y\<close>: the score \<open>x\<close> does not exceed the score \<open>y\<close>; NaN is comparable with
  NaN only.
\<close>

fun score_le :: "fval \<Rightarrow> fval \<Rightarrow> bool" where
  "score_le (Num a) (Num b) = (a \<le> b)"
| "score_le NaN NaN = True"
| "score_le _ _ = False"

section \<open>The order of the returned rows\<close>

text \<open>
  Two orders on (score, position) pairs, to state how the returned rows are arranged.
  In both, a number comes before NaN and two NaN entries stand in the order of their
  positions. Between two numbers \<open>ranks_before\<close> asks only that the score does not
  increase; \<open>stably_before\<close> asks moreover that equal scores stand in the order of their
  positions.
\<close>

fun ranks_before :: "fval \<times> nat \<Rightarrow> fval \<times> nat \<Rightarrow> bool" where
  "ranks_before (Num a, i) (Num b, j) = (b \<le> a)"
| "ranks_before (Num a, i) (NaN, j) = True"
| "ranks_before (NaN, i) (Num b, j) = False"
| "ranks_before (NaN, i) (NaN, j) = (i < j)"

fun stably_before :: "fval \<times> nat \<Rightarrow> fval \<times> nat \<Rightarrow> bool" where
  "stably_before (Num a, i) (Num b, j) = (b < a \<or> (a = b \<and> i < j))"
| "stably_before (Num a, i) (NaN, j) = True"
| "stably_before (NaN, i) (Num b, j) = False"
| "stably_before (NaN, i) (NaN, j) = (i < j)"

text \<open>
  \<open>precedes a b xs\<close>: in the ranking \<open>xs\<close>, \<open>a\<close> stands before the first \<open>b\<close> (or \<open>a\<close>
  occurs and \<open>b\<close> does not).
\<close>

definition precedes :: "nat \<Rightarrow> nat \<Rightarrow> nat list \<Rightarrow> bool" where
  "precedes a b xs = (a \<in> set (takeWhile (\<lambda>x. x \<noteq> b) xs))"

section \<open>Concrete tables for evaluation\<close>

text \<open>
  An insertion sort on (value, position) pairs: one function that meets the contract of
  \<^verbatim>\<open>argsort\<close>. The evaluations below use it on inputs whose numeric scores are all
  different, where every sorting function gives the same order.
\<close>

definition insertion_argsort :: "rat list \<Rightarrow> nat list" where
  "insertion_argsort xs = map snd (sort_key fst (zip xs [0..<length xs]))"

text \<open>Two stand-ins for the HTTP lookups: one that finds nothing, one that finds a URL.\<close>

definition no_url :: "int \<Rightarrow> string option" where
  "no_url i = None"

definition some_url :: "int \<Rightarrow> string option" where
  "some_url i = Some ''https://image.tmdb.org/t/p/w500/p.jpg''"

text \<open>The catalog of the spec's scenario: five movies A to E.\<close>

definition catalog5 :: "movie list" where
  "catalog5 =
     [\<lparr>movie_id = 11, title = ''A'', genres_list = [''Action'']\<rparr>,
      \<lparr>movie_id = 12, title = ''B'', genres_list = [''Drama'']\<rparr>,
      \<lparr>movie_id = 13, title = ''C'', genres_list = [''Action'']\<rparr>,
      \<lparr>movie_id = 14, title = ''D'', genres_list = [''Comedy'']\<rparr>,
      \<lparr>movie_id = 15, title = ''E'', genres_list = [''Drama'']\<rparr>]"

definition similarity5 :: "rat list list" where
  "similarity5 =
     [[1, 1/10, 3/10, 2/10, 4/10],
      [1/10, 1, 2/10, 3/10, 5/10],
      [3/10, 2/10, 1, 1/10, 2/10],
      [2/10, 3/10, 1/10, 1, 3/10],
      [4/10, 5/10, 2/10, 3/10, 1]]"

text \<open>A prediction table with the single user 7, scored on the five catalog positions.\<close>

definition preds5 :: preds where
  "preds5 u = (if u = 7 then Some [(0, 4), (1, 2), (2, 5), (3, 1), (4, 3)] else None)"

text \<open>A catalog of two movies, and prediction tables over it.\<close>

definition catalog2 :: "movie list" where
  "catalog2 =
     [\<lparr>movie_id = 11, title = ''A'', genres_list = [''Action'']\<rparr>,
      \<lparr>movie_id = 12, title = ''B'', genres_list = [''Drama'']\<rparr>]"

definition similarity2 :: "rat list list" where
  "similarity2 = [[1, 3/10], [3/10, 1]]"

text \<open>User 7 scored on three columns, the third of which is no catalog position.\<close>

definition preds_wide :: preds where
  "preds_wide u = (if u = 7 then Some [(0, 1), (1, 2), (2, 5)] else None)"

text \<open>User 7 with the same score for both movies; and with B scored lower than A.\<close>

definition preds_const :: preds where
  "preds_const u = (if u = 7 then Some [(0, 2), (1, 2)] else None)"

definition preds_low :: preds where
  "preds_low u = (if u = 7 then Some [(0, 2), (1, 1)] else None)"



text \<open>User 7 with A scored higher than B.\<close>

definition preds_up :: preds where
  "preds_up u = (if u = 7 then Some [(0, 3), (1, 2)] else None)"

text \<open>User 7 scored on the single column 0.\<close>

definition preds_partial :: preds where
  "preds_partial u = (if u = 7 then Some [(0, 2)] else None)"

section \<open>The spec's wording of the CF step\<close>

text \<open>
  The spec's normaliser (its section 4.1) and its step 4, written from the spec's words
  for comparison with \<open>cf_norm\<close>: the row is aligned to the candidates first, a
  candidate the row lacks getting 0, and the aligned vector is normalised; a constant
  vector is normalised to zeros.
\<close>

definition spec_normalize :: "rat list \<Rightarrow> fval list" where
  "spec_normalize v =
     (if v = [] then []
      else let lo = fold min (tl v) (hd v); hi = fold max (tl v) (hd v)
           in if hi > lo then map (\<lambda>x. Num ((x - lo) / (hi - lo))) v
              else map (\<lambda>x. Num 0) v)"

definition spec_cf_norm :: "cf_row \<Rightarrow> nat list \<Rightarrow> fval list" where
  "spec_cf_norm row labels =
     spec_normalize (map (\<lambda>l. case map_of row l of Some v \<Rightarrow> v | None \<Rightarrow> 0) labels)"

section \<open>The contract of argsort\<close>

text \<open>
  What the model asks of numpy's \<^verbatim>\<open>argsort\<close>: the result lists every position once, in
  ascending order of value. A stable sort moreover keeps equal values in their original
  order; numpy's default kind does not promise that.
\<close>

definition sorts_ascending :: "(rat list \<Rightarrow> nat list) \<Rightarrow> bool" where
  "sorts_ascending argsort =
     (\<forall>xs. distinct (argsort xs) \<and> set (argsort xs) = {0..<length xs} \<and>
           sorted (map (\<lambda>i. xs ! i) (argsort xs)))"

definition stable_ascending :: "(rat list \<Rightarrow> nat list) \<Rightarrow> bool" where
  "stable_ascending argsort =
     (\<forall>xs. distinct (argsort xs) \<and> set (argsort xs) = {0..<length xs} \<and>
           sorted_wrt (\<lambda>i j. xs ! i < xs ! j \<or> (xs ! i = xs ! j \<and> i < j)) (argsort xs))"

text \<open>The lexicographic order on (value, position) pairs, for the insertion sort.\<close>

definition lex_less :: "rat \<times> nat \<Rightarrow> rat \<times> nat \<Rightarrow> bool" where
  "lex_less a b = (fst a < fst b \<or> (fst a = fst b \<and> snd a < snd b))"

section \<open>Min-max normalisation\<close>

lemma series_min_Min: "v \<noteq> [] \<Longrightarrow> series_min v = Num (Min (set v))"
  by (cases v) (simp_all add: Min.set_eq_fold [symmetric])

lemma series_max_Max: "v \<noteq> [] \<Longrightarrow> series_max v = Num (Max (set v))"
  by (cases v) (simp_all add: Max.set_eq_fold [symmetric])

lemma length_minmax [simp]: "length (minmax v) = length v"
  by (simp add: minmax_def Let_def)

lemma minmax_eq:
  "v \<noteq> [] \<Longrightarrow> minmax v =
     map (\<lambda>x. if Max (set v) = Min (set v) then NaN
               else Num ((x - Min (set v)) / (Max (set v) - Min (set v)))) v"
  by (simp add: minmax_def series_min_Min series_max_Max)

lemma zero_divisor_zero_numerator:
  assumes "x \<in> set v" and "fsub (series_max v) (series_min v) = Num 0"
  shows "fsub (Num x) (series_min v) = Num 0"
proof -
  from assms(1) have ne: "v \<noteq> []" by auto
  with assms(2) have eq: "Max (set v) = Min (set v)"
    by (simp add: series_min_Min series_max_Max)
  have "Min (set v) \<le> x" "x \<le> Max (set v)" using assms(1) by simp_all
  with eq have "x = Min (set v)" by simp
  with ne show ?thesis by (simp add: series_min_Min)
qed

lemma constant_iff_Max_Min:
  assumes "v \<noteq> []"
  shows "(\<forall>x\<in>set v. x = hd v) \<longleftrightarrow> Max (set v) = Min (set v)"
proof
  assume "\<forall>x\<in>set v. x = hd v"
  moreover have "Min (set v) \<in> set v" "Max (set v) \<in> set v" using assms by simp_all
  ultimately show "Max (set v) = Min (set v)" by metis
next
  assume eq: "Max (set v) = Min (set v)"
  have "x = Min (set v)" if "x \<in> set v" for x
  proof -
    from that have "Min (set v) \<le> x" "x \<le> Max (set v)" by simp_all
    with eq show ?thesis by simp
  qed
  moreover have "hd v \<in> set v" using assms by simp
  ultimately show "\<forall>x\<in>set v. x = hd v" by metis
qed

lemma Min_less_Max:
  assumes "v \<noteq> []" and "Max (set v) \<noteq> Min (set v)"
  shows "Min (set v) < Max (set v)"
proof -
  have "Max (set v) \<in> set v" using assms(1) by simp
  then have "Min (set v) \<le> Max (set v)" by (intro Min_le) simp_all
  with assms(2) show ?thesis by simp
qed

lemma minmax_constant:
  assumes "v \<noteq> []" and "\<forall>x\<in>set v. x = hd v"
  shows "minmax v = replicate (length v) NaN"
proof -
  from assms have "Max (set v) = Min (set v)" by (simp add: constant_iff_Max_Min)
  then have "minmax v = map (\<lambda>x. NaN) v" using assms(1) by (simp add: minmax_eq)
  then show ?thesis by (simp add: map_replicate_const)
qed

lemma minmax_unit_interval:
  assumes "v \<noteq> []" and "\<not> (\<forall>x\<in>set v. x = hd v)"
  shows "\<forall>y\<in>set (minmax v). \<exists>q. y = Num q \<and> 0 \<le> q \<and> q \<le> 1"
    and "Num 0 \<in> set (minmax v)" and "Num 1 \<in> set (minmax v)"
proof -
  let ?lo = "Min (set v)" and ?hi = "Max (set v)"
  have lo_in: "?lo \<in> set v" and hi_in: "?hi \<in> set v" using assms(1) by simp_all
  from assms have neq: "?hi \<noteq> ?lo" by (simp add: constant_iff_Max_Min)
  then have lt: "?lo < ?hi" using assms(1) by (simp add: Min_less_Max)
  have mm: "minmax v = map (\<lambda>x. Num ((x - ?lo) / (?hi - ?lo))) v"
    using assms(1) neq by (simp add: minmax_eq)
  show "\<forall>y\<in>set (minmax v). \<exists>q. y = Num q \<and> 0 \<le> q \<and> q \<le> 1"
  proof
    fix y assume "y \<in> set (minmax v)"
    then obtain x where x: "x \<in> set v" and y: "y = Num ((x - ?lo) / (?hi - ?lo))"
      unfolding mm by auto
    have "?lo \<le> x" "x \<le> ?hi" using x by simp_all
    then have "0 \<le> (x - ?lo) / (?hi - ?lo)" "(x - ?lo) / (?hi - ?lo) \<le> 1"
      using lt by (simp_all add: divide_le_eq)
    with y show "\<exists>q. y = Num q \<and> 0 \<le> q \<and> q \<le> 1" by blast
  qed
  show "Num 0 \<in> set (minmax v)"
    unfolding mm using lo_in by (auto simp: image_iff intro!: bexI[of _ ?lo])
  show "Num 1 \<in> set (minmax v)"
    unfolding mm using hi_in lt by (auto simp: image_iff intro!: bexI[of _ ?hi])
qed

text \<open>
  C1 (as amended). For a non-empty vector the normalisation raises nothing and returns
  a vector of the same length. When all entries are equal (so also for a single entry,
  or all zeros) every output is NaN, the value of 0/0, not zero. When the entries are
  not all equal and lie within \<open>within_machine_range\<close>, every output is a number in
  [0,1], and 0 and 1 are both attained (at the minimum and at the maximum). For entries
  of larger magnitude the theorem says nothing: there the subtraction of the code can
  overflow or wrap.
\<close>

theorem minmax_range:
  "v \<noteq> [] \<Longrightarrow>
     length (minmax v) = length v \<and>
     (if \<forall>x\<in>set v. x = hd v then minmax v = replicate (length v) NaN
      else within_machine_range v \<longrightarrow>
           (\<forall>y\<in>set (minmax v). \<exists>q. y = Num q \<and> 0 \<le> q \<and> q \<le> 1) \<and>
           Num 0 \<in> set (minmax v) \<and> Num 1 \<in> set (minmax v))"
proof -
  assume ne: "v \<noteq> []"
  show ?thesis
  proof (cases "\<forall>x\<in>set v. x = hd v")
    case True
    with ne show ?thesis by (simp add: minmax_constant)
  next
    case False
    from minmax_unit_interval [OF ne False] show ?thesis
      unfolding if_not_P [OF False] by simp
  qed
qed

theorem minmax_range_witness:
  "[1, 2, 5 :: rat] \<noteq> [] \<and> within_machine_range [1, 2, 5] \<and>
   length (minmax [1, 2, 5]) = 3 \<and>
   Num 0 \<in> set (minmax [1, 2, 5]) \<and> Num 1 \<in> set (minmax [1, 2, 5]) \<and>
   list_all (\<lambda>y. y \<in> {Num 0, Num (1/4), Num 1}) (minmax [1, 2, 5])"
proof -
  have r: "within_machine_range [1, 2, 5]" by (simp add: within_machine_range_def)
  have e: "minmax [1, 2, 5] = [Num 0, Num (1/4), Num 1]" by (simp add: minmax_def)
  from minmax_range [of "[1, 2, 5]"] r
  have "length (minmax [1, 2, 5]) = 3 \<and>
        Num 0 \<in> set (minmax [1, 2, 5]) \<and> Num 1 \<in> set (minmax [1, 2, 5])"
    by simp
  with r e show ?thesis by simp
qed

text \<open>
  C1 as the spec states it fails: a constant vector is normalised to NaN entries, not to
  zeros.
\<close>

theorem minmax_constant_counterexample:
  "minmax [2, 2] = [NaN, NaN] \<and> minmax [0] = [NaN] \<and> minmax [2, 2] \<noteq> [Num 0, Num 0]"
  by (simp add: minmax_def)

section \<open>The seed title outside the candidates\<close>

text \<open>
  C9. When no candidate row carries the seed title, the function returns the empty frame
  (line 120), whatever the other arguments are; it raises nothing.
\<close>

theorem seed_not_in_candidates_empty:
  "movie_title \<notin> title ` snd ` set (filtered_movies selected_genres movies_df) \<Longrightarrow>
     hybrid_recommend argsort fetch_poster fetch_trailer selected_genres
       user_id movie_title movies_df preds_df similarity top_n alpha = Inr []"
  by (simp add: hybrid_recommend_def Let_def image_image)

lemma filtered_catalog5_Action:
  "filtered_movies [''Action''] catalog5 =
     [(0, \<lparr>movie_id = 11, title = ''A'', genres_list = [''Action'']\<rparr>),
      (2, \<lparr>movie_id = 13, title = ''C'', genres_list = [''Action'']\<rparr>)]"
  by (simp add: filtered_movies_def catalog5_def enumerate_eq_zip upt_rec)

theorem seed_not_in_candidates_empty_witness:
  "''B'' \<notin> title ` snd ` set (filtered_movies [''Action''] catalog5) \<and>
   hybrid_recommend insertion_argsort no_url no_url [''Action'']
     7 ''B'' catalog5 preds5 similarity5 10 (1/10) = Inr []"
proof -
  have h: "''B'' \<notin> title ` snd ` set (filtered_movies [''Action''] catalog5)"
    by (simp add: filtered_catalog5_Action)
  from seed_not_in_candidates_empty [OF h] h show ?thesis by simp
qed

section \<open>An unknown user\<close>

lemma cf_norm_unknown: "preds_df user_id = None \<Longrightarrow> cf_norm preds_df user_id labels = Inl KeyError"
  by (simp add: cf_norm_def loc_user_def)

text \<open>
  C4 (as amended). For a user id that the prediction table lacks: when a candidate row
  carries the seed title, \<^verbatim>\<open>preds_df.loc[user_id]\<close> raises KeyError, which nothing in
  the function catches; when no candidate row carries the seed title, the function has
  already returned the empty frame.
\<close>

theorem unknown_user_outcome:
  "preds_df user_id = None \<Longrightarrow>
     hybrid_recommend argsort fetch_poster fetch_trailer selected_genres
       user_id movie_title movies_df preds_df similarity top_n alpha =
     (if movie_title \<in> title ` snd ` set (filtered_movies selected_genres movies_df)
      then Inl KeyError else Inr [])"
  by (simp add: hybrid_recommend_def Let_def image_image cf_norm_unknown)

lemma filtered_catalog5_all:
  "filtered_movies [] catalog5 =
     [(0, \<lparr>movie_id = 11, title = ''A'', genres_list = [''Action'']\<rparr>),
      (1, \<lparr>movie_id = 12, title = ''B'', genres_list = [''Drama'']\<rparr>),
      (2, \<lparr>movie_id = 13, title = ''C'', genres_list = [''Action'']\<rparr>),
      (3, \<lparr>movie_id = 14, title = ''D'', genres_list = [''Comedy'']\<rparr>),
      (4, \<lparr>movie_id = 15, title = ''E'', genres_list = [''Drama'']\<rparr>)]"
  by (simp add: filtered_movies_def catalog5_def enumerate_eq_zip upt_rec)

theorem unknown_user_outcome_witness:
  "preds5 99 = None \<and>
   hybrid_recommend insertion_argsort no_url no_url [] 99 ''A'' catalog5 preds5 similarity5
     10 (1/10) = Inl KeyError"
proof -
  have h: "preds5 99 = None" by (simp add: preds5_def)
  have t: "''A'' \<in> title ` snd ` set (filtered_movies [] catalog5)"
    by (simp add: filtered_catalog5_all)
  from unknown_user_outcome [where preds_df = preds5 and user_id = 99
      and argsort = insertion_argsort and fetch_poster = no_url and fetch_trailer = no_url
      and selected_genres = "[]" and movie_title = "''A''" and movies_df = catalog5
      and similarity = similarity5 and top_n = 10 and alpha = "1/10"] t h
  show ?thesis by simp
qed

text \<open>
  C4 as the spec states it fails: with an unknown user and a seed title that the genre
  filter excludes, the function returns the empty list and no error of any kind.
\<close>

theorem unknown_user_counterexample:
  "preds5 99 = None \<and>
   hybrid_recommend insertion_argsort no_url no_url [''Action''] 99 ''B'' catalog5 preds5
     similarity5 10 (1/10) = Inr []"
  by (simp add: preds5_def hybrid_recommend_def filtered_catalog5_Action)

section \<open>A genre filter that removes rows\<close>

lemma fst_enumerate_filter:
  "(i, m) \<in> set (filter P (enumerate 0 xs)) \<Longrightarrow> i < length xs"
  by (auto simp: in_set_enumerate_eq)

lemma filtered_movies_label:
  "(i, m) \<in> set (filtered_movies selected_genres movies_df) \<Longrightarrow> i < length movies_df"
  by (auto simp: filtered_movies_def in_set_enumerate_eq split: if_splits)

lemma seed_idx_found:
  assumes "movie_title \<in> title ` snd ` set fm"
  shows "\<exists>i m. seed_idx fm movie_title = Inr i \<and> (i, m) \<in> set fm \<and> title m = movie_title"
proof -
  from assms obtain j n where "(j, n) \<in> set fm" "title n = movie_title" by force
  then have "filter (\<lambda>(i, m). title m = movie_title) fm \<noteq> []"
    by (auto simp: filter_empty_conv)
  then obtain i m rest where f: "filter (\<lambda>(i, m). title m = movie_title) fm = (i, m) # rest"
    by (cases "filter (\<lambda>(i, m). title m = movie_title) fm") auto
  then have "(i, m) \<in> set (filter (\<lambda>(i, m). title m = movie_title) fm)" by simp
  then have "(i, m) \<in> set fm" "title m = movie_title" by auto
  moreover have "seed_idx fm movie_title = Inr i" by (simp add: seed_idx_def f)
  ultimately show ?thesis by blast
qed

lemma cf_norm_cases:
  "cf_norm preds_df user_id labels =
     (case preds_df user_id of
        None \<Rightarrow> Inl KeyError
      | Some r \<Rightarrow>
          if distinct (map fst r)
          then Inr (map (\<lambda>l. case map_of (zip (map fst r) (minmax (map snd r))) l of
                              Some v \<Rightarrow> v | None \<Rightarrow> Num 0) labels)
          else Inl (ValueError DuplicateLabels))"
  by (simp add: cf_norm_def loc_user_def reindex_def split: option.splits)

text \<open>
  C10. The similarity matrix is square and as large as the catalog (the Data Store's
  invariant). When the genre filter is not empty, keeps fewer rows than the catalog has
  and keeps a row with the seed title, the call raises: KeyError for an unknown user,
  ValueError for a prediction row with a repeated column label, and otherwise the
  ValueError of the Series constructor at line 129, which is given a row of catalog
  length and the shorter index of the filtered frame. It never returns a frame.
\<close>

theorem filtered_subset_raises:
  assumes "selected_genres \<noteq> []"
    and "length (filtered_movies selected_genres movies_df) < length movies_df"
    and "movie_title \<in> title ` snd ` set (filtered_movies selected_genres movies_df)"
    and "length similarity = length movies_df"
    and "\<forall>row\<in>set similarity. length row = length movies_df"
  shows "hybrid_recommend argsort fetch_poster fetch_trailer selected_genres
           user_id movie_title movies_df preds_df similarity top_n alpha =
         (case preds_df user_id of
            None \<Rightarrow> Inl KeyError
          | Some r \<Rightarrow> if distinct (map fst r) then Inl (ValueError LengthMismatch)
                      else Inl (ValueError DuplicateLabels))"
proof -
  let ?fm = "filtered_movies selected_genres movies_df"
  from seed_idx_found [OF assms(3)] obtain i m where
    si: "seed_idx ?fm movie_title = Inr i" and mem: "(i, m) \<in> set ?fm" by blast
  from mem have i: "i < length movies_df" by (rule filtered_movies_label)
  then have row: "length (similarity ! i) = length movies_df"
    using assms(4,5) by simp
  with i have ne: "similarity ! i \<noteq> []" by auto
  have cn: "content_norm similarity i (map fst ?fm) = Inl (ValueError LengthMismatch)"
    using i row ne assms(2,4) by (simp add: content_norm_def Let_def)
  have t: "movie_title \<in> set (map (title \<circ> snd) ?fm)"
    using assms(3) by (simp add: image_image)
  show ?thesis
    using t si cn
    by (simp add: hybrid_recommend_def Let_def cf_norm_cases split: option.splits)
qed

lemma filtered_catalog5_Drama:
  "filtered_movies [''Drama''] catalog5 =
     [(1, \<lparr>movie_id = 12, title = ''B'', genres_list = [''Drama'']\<rparr>),
      (4, \<lparr>movie_id = 15, title = ''E'', genres_list = [''Drama'']\<rparr>)]"
  by (simp add: filtered_movies_def catalog5_def enumerate_eq_zip upt_rec)

theorem filtered_subset_raises_witness:
  "[''Drama''] \<noteq> [] \<and>
   length (filtered_movies [''Drama''] catalog5) < length catalog5 \<and>
   ''B'' \<in> title ` snd ` set (filtered_movies [''Drama''] catalog5) \<and>
   length similarity5 = length catalog5 \<and>
   list_all (\<lambda>row. length row = length catalog5) similarity5 \<and>
   hybrid_recommend insertion_argsort no_url no_url [''Drama''] 7 ''B'' catalog5 preds5
     similarity5 10 (1/10) = Inl (ValueError LengthMismatch)"
proof -
  have h1: "[''Drama''] \<noteq> ([] :: string list)" by simp
  have h2: "length (filtered_movies [''Drama''] catalog5) < length catalog5"
    by (simp add: filtered_catalog5_Drama) (simp add: catalog5_def)
  have h3: "''B'' \<in> title ` snd ` set (filtered_movies [''Drama''] catalog5)"
    by (simp add: filtered_catalog5_Drama)
  have h4: "length similarity5 = length catalog5"
    by (simp add: similarity5_def catalog5_def)
  have h5: "\<forall>row\<in>set similarity5. length row = length catalog5"
    by (simp add: similarity5_def catalog5_def)
  have h5': "list_all (\<lambda>row. length row = length catalog5) similarity5"
    using h5 by (simp add: list_all_iff)
  have "hybrid_recommend insertion_argsort no_url no_url [''Drama''] 7 ''B'' catalog5 preds5
     similarity5 10 (1/10) = Inl (ValueError LengthMismatch)"
    using filtered_subset_raises [OF h1 h2 h3 h4 h5, of insertion_argsort no_url no_url 7 preds5 10 "1/10"]
    by (simp add: preds5_def)
  with h1 h2 h3 h4 h5' show ?thesis by blast
qed

section \<open>The content scores under a genre filter\<close>

text \<open>
  C3, evaluated where it fails. With the genre filter Action the candidates are A and C;
  the seed A is among them and user 7 is known. Line 128 normalises the whole similarity
  row of A (five entries), and line 129 raises ValueError on wrapping it in a Series
  over the two candidate labels: no candidate gets a content score.
\<close>

theorem content_scores_filter_raises:
  "hybrid_recommend insertion_argsort no_url no_url [''Action''] 7 ''A'' catalog5 preds5
     similarity5 10 (1/10) = Inl (ValueError LengthMismatch)"
  by (simp add: hybrid_recommend_def filtered_catalog5_Action cf_norm_cases preds5_def
      seed_idx_def content_norm_def similarity5_def)

section \<open>The CF scores over the candidates\<close>

lemma map_of_zip_map_snd:
  "map_of (zip (map fst r) (map g (map snd r))) l = map_option g (map_of r l)"
  by (induction r) auto

lemma filtered_catalog2_all:
  "filtered_movies [] catalog2 =
     [(0, \<lparr>movie_id = 11, title = ''A'', genres_list = [''Action'']\<rparr>),
      (1, \<lparr>movie_id = 12, title = ''B'', genres_list = [''Drama'']\<rparr>)]"
  by (simp add: filtered_movies_def catalog2_def enumerate_eq_zip upt_rec)

lemma cf_norm_eq:
  assumes "preds_df user_id = Some r" and "distinct (map fst r)"
  shows "cf_norm preds_df user_id labels =
           Inr (map (\<lambda>l. case map_of r l of
                       None \<Rightarrow> Num 0
                     | Some v \<Rightarrow>
                         if Max (snd ` set r) = Min (snd ` set r) then NaN
                         else Num ((v - Min (snd ` set r)) /
                                   (Max (snd ` set r) - Min (snd ` set r)))) labels)"
proof -
  let ?lo = "Min (snd ` set r)" and ?hi = "Max (snd ` set r)"
  let ?g = "\<lambda>v. if ?hi = ?lo then NaN else Num ((v - ?lo) / (?hi - ?lo))"
  have mm: "minmax (map snd r) = map ?g (map snd r)"
  proof (cases "r = []")
    case True
    then show ?thesis by (simp add: minmax_def)
  next
    case False
    then show ?thesis using minmax_eq [of "map snd r"] by simp
  qed
  have look: "(case map_of (zip (map fst r) (minmax (map snd r))) l of
                 None \<Rightarrow> Num 0 | Some v \<Rightarrow> v) =
              (case map_of r l of None \<Rightarrow> Num 0 | Some v \<Rightarrow> ?g v)" for l
    unfolding mm map_of_zip_map_snd by (cases "map_of r l") simp_all
  show ?thesis using assms by (simp add: cf_norm_cases look)
qed

text \<open>
  C2 (as amended). For a known user whose row has no repeated column label, the row is
  normalised over all of its own entries first (line 123) and the normalised row is then
  aligned to the candidates by label (line 124): a candidate the row has at position
  \<open>k\<close> gets entry \<open>k\<close> of the row normalised as a whole, whatever the other candidates
  are, and a candidate the row lacks gets 0. The values need not attain 0 or 1 over the
  candidates. When the row is constant, every candidate the row has gets NaN. When the
  row is not constant and lies within \<open>within_machine_range\<close>, all values lie in [0,1].
\<close>

theorem cf_norm_normalise_then_align:
  assumes "preds_df user_id = Some r" and "distinct (map fst r)"
  shows "\<exists>cf. cf_norm preds_df user_id labels = Inr cf \<and> length cf = length labels \<and>
           (\<forall>i<length labels.
              (labels ! i \<notin> fst ` set r \<longrightarrow> cf ! i = Num 0) \<and>
              (\<forall>k<length r. fst (r ! k) = labels ! i \<longrightarrow>
                 cf ! i = minmax (map snd r) ! k)) \<and>
           ((\<forall>x\<in>set (map snd r). x = hd (map snd r)) \<longrightarrow>
              (\<forall>i<length labels. labels ! i \<in> fst ` set r \<longrightarrow> cf ! i = NaN)) \<and>
           (\<not> (\<forall>x\<in>set (map snd r). x = hd (map snd r)) \<and>
            within_machine_range (map snd r) \<longrightarrow>
              (\<forall>y\<in>set cf. \<exists>q. y = Num q \<and> 0 \<le> q \<and> q \<le> 1))"
proof -
  let ?ks = "map fst r" and ?vs = "minmax (map snd r)"
  let ?cf = "map (\<lambda>l. case map_of (zip ?ks ?vs) l of None \<Rightarrow> Num 0 | Some v \<Rightarrow> v) labels"
  have len: "length ?ks = length ?vs" by simp
  have eq: "cf_norm preds_df user_id labels = Inr ?cf"
    using assms by (simp add: cf_norm_cases)
  have absent: "?cf ! i = Num 0" if "i < length labels" "labels ! i \<notin> fst ` set r" for i
  proof -
    from that(2) have "labels ! i \<notin> set ?ks" by simp
    then have n: "map_of (zip ?ks ?vs) (labels ! i) = None"
      using map_of_zip_is_None [OF len, of "labels ! i"] by simp
    have "?cf ! i = (case map_of (zip ?ks ?vs) (labels ! i) of None \<Rightarrow> Num 0 | Some v \<Rightarrow> v)"
      using that(1) by (rule nth_map)
    then show ?thesis unfolding n by simp
  qed
  have present: "?cf ! i = ?vs ! k"
    if "i < length labels" "k < length r" "fst (r ! k) = labels ! i" for i k
  proof -
    from that(2) have "map_of (zip ?ks ?vs) (?ks ! k) = Some (?vs ! k)"
      by (intro map_of_zip_nth [OF len assms(2)]) simp
    with that(2,3) have n: "map_of (zip ?ks ?vs) (labels ! i) = Some (?vs ! k)" by simp
    have "?cf ! i = (case map_of (zip ?ks ?vs) (labels ! i) of None \<Rightarrow> Num 0 | Some v \<Rightarrow> v)"
      using that(1) by (rule nth_map)
    then show ?thesis unfolding n by simp
  qed
  have pos: "\<exists>k<length r. fst (r ! k) = l" if "l \<in> fst ` set r" for l
  proof -
    from that obtain e where "e \<in> set r" "fst e = l" by auto
    then show ?thesis by (metis in_set_conv_nth)
  qed
  have const: "?cf ! i = NaN"
    if c: "\<forall>x\<in>set (map snd r). x = hd (map snd r)"
      and i: "i < length labels" "labels ! i \<in> fst ` set r" for i
  proof -
    from pos [OF i(2)] obtain k where k: "k < length r" "fst (r ! k) = labels ! i" by blast
    then have ne: "map snd r \<noteq> []" by auto
    from minmax_constant [OF ne c] k(1) have "?vs ! k = NaN" by simp
    with present [OF i(1) k] show ?thesis by simp
  qed
  have rng: "\<exists>q. y = Num q \<and> 0 \<le> q \<and> q \<le> 1"
    if nc: "\<not> (\<forall>x\<in>set (map snd r). x = hd (map snd r))" and y: "y \<in> set ?cf" for y
  proof -
    from nc have ne: "map snd r \<noteq> []" by auto
    from y obtain i where i: "i < length labels" "y = ?cf ! i"
      by (metis in_set_conv_nth length_map)
    show ?thesis
    proof (cases "labels ! i \<in> fst ` set r")
      case False
      with absent [OF i(1)] i(2) show ?thesis by simp
    next
      case True
      from pos [OF True] obtain k where k: "k < length r" "fst (r ! k) = labels ! i" by blast
      then have "?vs ! k \<in> set ?vs" by simp
      with minmax_unit_interval(1) [OF ne nc] present [OF i(1) k] i(2)
      show ?thesis by simp
    qed
  qed
  show ?thesis
  proof (intro exI [of _ ?cf] conjI)
    show "cf_norm preds_df user_id labels = Inr ?cf" by (rule eq)
    show "length ?cf = length labels" by simp
    show "\<forall>i<length labels.
            (labels ! i \<notin> fst ` set r \<longrightarrow> ?cf ! i = Num 0) \<and>
            (\<forall>k<length r. fst (r ! k) = labels ! i \<longrightarrow> ?cf ! i = minmax (map snd r) ! k)"
      using absent present by blast
    show "(\<forall>x\<in>set (map snd r). x = hd (map snd r)) \<longrightarrow>
            (\<forall>i<length labels. labels ! i \<in> fst ` set r \<longrightarrow> ?cf ! i = NaN)"
      using const by blast
    show "\<not> (\<forall>x\<in>set (map snd r). x = hd (map snd r)) \<and>
            within_machine_range (map snd r) \<longrightarrow>
            (\<forall>y\<in>set ?cf. \<exists>q. y = Num q \<and> 0 \<le> q \<and> q \<le> 1)"
      using rng by blast
  qed
qed

theorem cf_norm_normalise_then_align_witness:
  "preds_wide 7 = Some [(0, 1), (1, 2), (2, 5)] \<and>
   distinct (map fst [(0::nat, 1::rat), (1, 2), (2, 5)]) \<and>
   within_machine_range (map snd [(0::nat, 1::rat), (1, 2), (2, 5)]) \<and>
   cf_norm preds_wide 7 [0, 1] = Inr [Num 0, Num (1/4)]"
proof -
  let ?r = "[(0::nat, 1::rat), (1, 2), (2, 5)]"
  have h1: "preds_wide 7 = Some ?r" by (simp add: preds_wide_def)
  have h2: "distinct (map fst ?r)" by simp
  have h3: "within_machine_range (map snd ?r)" by (simp add: within_machine_range_def)
  have mm: "minmax (map snd ?r) = [Num 0, Num (1/4), Num 1]" by (simp add: minmax_def)
  from cf_norm_normalise_then_align [where preds_df = preds_wide and user_id = 7
      and r = ?r and labels = "[0, 1]", OF h1 h2]
  obtain cf where e: "cf_norm preds_wide 7 [0, 1] = Inr cf" and l: "length cf = 2"
    and v: "\<forall>i<2. \<forall>k<3. fst (?r ! k) = [0, 1] ! i \<longrightarrow> cf ! i = minmax (map snd ?r) ! k"
    by auto
  from v have "cf ! 0 = minmax (map snd ?r) ! 0" "cf ! 1 = minmax (map snd ?r) ! 1"
    by (auto simp del: list.map)
  then have "cf ! 0 = Num 0" "cf ! 1 = Num (1/4)" unfolding mm by simp_all
  with l have "cf = [Num 0, Num (1/4)]"
    by (auto simp: list_eq_iff_nth_eq less_Suc_eq numeral_2_eq_2)
  with e h1 h2 h3 show ?thesis by simp
qed

lemma nargsort_0_quarter: "nargsort_desc insertion_argsort [Num 0, Num (1/4)] = [1, 0]"
  by (simp add: nargsort_desc_def insertion_argsort_def Let_def upt_rec)

text \<open>
  C2 as the spec states it fails. User 7 is scored 1, 2, 5 on columns 0, 1, 2 and the
  catalog has the two positions 0 and 1. The code's CF scores over the candidates are 0
  and 1/4: they do not attain 1. Aligning first and normalising the aligned vector, as
  the spec words it, gives 0 and 1. With \<open>alpha = 1\<close> the scores the function returns are
  the code's.
\<close>

theorem cf_order_counterexample:
  "cf_norm preds_wide 7 [0, 1] = Inr [Num 0, Num (1/4)] \<and>
   spec_cf_norm [(0, 1), (1, 2), (2, 5)] [0, 1] = [Num 0, Num 1] \<and>
   hybrid_recommend insertion_argsort no_url no_url [] 7 ''A'' catalog2 preds_wide
     similarity2 10 1 =
     Inr [\<lparr>rec_title = ''B'', poster = None, trailer = None, hybrid_score = Num (1/4),
           rec_id = 12\<rparr>,
          \<lparr>rec_title = ''A'', poster = None, trailer = None, hybrid_score = Num 0,
           rec_id = 11\<rparr>]"
  apply (intro conjI)
    apply (simp add: cf_norm_cases preds_wide_def minmax_def)
   apply (simp add: spec_cf_norm_def spec_normalize_def)
  apply (simp add: hybrid_recommend_def filtered_catalog2_all cf_norm_cases preds_wide_def
      minmax_def seed_idx_def content_norm_def similarity2_def hybrid_scores_def
      recommendations_def top_idx_def head_def nargsort_0_quarter rec_row_def no_url_def)
  done

section \<open>Poster and trailer lookups\<close>

lemma recommendations_enrich:
  "recommendations argsort fp ft fm hs n =
     map (\<lambda>r. r\<lparr>poster := fp (rec_id r), trailer := ft (rec_id r)\<rparr>)
       (recommendations argsort fp0 ft0 fm hs n)"
  by (simp add: recommendations_def rec_row_def Let_def)

text \<open>
  C5 (as amended). The function performs the poster and the trailer lookup itself, once
  for each returned row (lines 136-137), and it reads the module-level
  \<^verbatim>\<open>selected_genres\<close>. Its result is a function of its arguments, of
  \<^verbatim>\<open>selected_genres\<close>, of the loaded tables and of the lookups' answers. The lookups
  decide nothing but the two columns they fill: whether the call raises, which rows are
  returned, their order and their scores are the same under any other pair of lookups,
  and each row's poster and trailer are the lookups' answers for that row's id.
\<close>

theorem lookups_only_fill_poster_and_trailer:
  "hybrid_recommend argsort fetch_poster fetch_trailer selected_genres
     user_id movie_title movies_df preds_df similarity top_n alpha =
   map_sum id
     (map (\<lambda>r. r\<lparr>poster := fetch_poster (rec_id r), trailer := fetch_trailer (rec_id r)\<rparr>))
     (hybrid_recommend argsort other_poster other_trailer selected_genres
        user_id movie_title movies_df preds_df similarity top_n alpha)"
  unfolding hybrid_recommend_def Let_def
  by (simp add: recommendations_enrich [of argsort fetch_poster fetch_trailer _ _ _
        other_poster other_trailer] split: sum.splits)

lemma nargsort_low: "nargsort_desc insertion_argsort [Num (1/10), Num (9/10)] = [1, 0]"
  by (simp add: nargsort_desc_def insertion_argsort_def Let_def upt_rec)

text \<open>
  C5 as the spec states it fails. The same arguments give different results under two
  poster lookups, so the enrichment happens inside the function; and the same arguments
  give a different result once \<^verbatim>\<open>selected_genres\<close>, which is not an argument of the
  Python function, changes.
\<close>

theorem enrichment_counterexample:
  "hybrid_recommend insertion_argsort no_url no_url [] 7 ''B'' catalog2 preds_low
     similarity2 10 (1/10) =
     Inr [\<lparr>rec_title = ''B'', poster = None, trailer = None, hybrid_score = Num (9/10),
           rec_id = 12\<rparr>,
          \<lparr>rec_title = ''A'', poster = None, trailer = None, hybrid_score = Num (1/10),
           rec_id = 11\<rparr>] \<and>
   hybrid_recommend insertion_argsort some_url no_url [] 7 ''B'' catalog2 preds_low
     similarity2 10 (1/10) =
     Inr [\<lparr>rec_title = ''B'', poster = Some ''https://image.tmdb.org/t/p/w500/p.jpg'',
           trailer = None, hybrid_score = Num (9/10), rec_id = 12\<rparr>,
          \<lparr>rec_title = ''A'', poster = Some ''https://image.tmdb.org/t/p/w500/p.jpg'',
           trailer = None, hybrid_score = Num (1/10), rec_id = 11\<rparr>] \<and>
   hybrid_recommend insertion_argsort no_url no_url [''Action''] 7 ''B'' catalog2 preds_low
     similarity2 10 (1/10) = Inr []"
  apply (intro conjI)
    apply (simp add: hybrid_recommend_def filtered_catalog2_all cf_norm_cases preds_low_def
      minmax_def seed_idx_def content_norm_def similarity2_def hybrid_scores_def
      recommendations_def top_idx_def head_def nargsort_low rec_row_def no_url_def)
   apply (simp add: hybrid_recommend_def filtered_catalog2_all cf_norm_cases preds_low_def
      minmax_def seed_idx_def content_norm_def similarity2_def hybrid_scores_def
      recommendations_def top_idx_def head_def nargsort_low rec_row_def no_url_def some_url_def)
  apply (simp add: hybrid_recommend_def filtered_movies_def catalog2_def enumerate_eq_zip upt_rec)
  done

section \<open>The blend at alpha = 0 and alpha = 1\<close>

lemma cf_norm_length: "cf_norm preds_df user_id labels = Inr cf \<Longrightarrow> length cf = length labels"
  by (auto simp: cf_norm_cases split: option.splits if_splits)

lemma content_norm_length:
  "content_norm similarity idx labels = Inr ct \<Longrightarrow> length ct = length labels"
  by (auto simp: content_norm_def Let_def split: if_splits)







lemma nargsort_nan2: "nargsort_desc insertion_argsort [NaN, NaN] = [0, 1]"
  by (simp add: nargsort_desc_def insertion_argsort_def Let_def upt_rec)





section \<open>The insertion sort meets the contract of argsort\<close>

lemma zip_upt_nth: "(x, i) \<in> set (zip xs [0..<length xs]) \<Longrightarrow> xs ! i = x"
  by (auto simp: set_zip)

lemma map_snd_zip_upt: "map snd (zip xs [0..<length xs]) = [0..<length xs]"
  by (simp add: map_snd_zip)

lemma insertion_argsort_distinct: "distinct (insertion_argsort xs)"
proof -
  have "distinct (map snd (zip xs [0..<length xs]))"
    unfolding map_snd_zip_upt by simp
  then have "distinct (zip xs [0..<length xs]) \<and> inj_on snd (set (zip xs [0..<length xs]))"
    by (simp only: distinct_map)
  then show ?thesis
    by (simp add: insertion_argsort_def distinct_map)
qed

lemma insertion_argsort_set: "set (insertion_argsort xs) = {0..<length xs}"
proof -
  have "set (insertion_argsort xs) = set (map snd (zip xs [0..<length xs]))"
    unfolding insertion_argsort_def set_map set_sort ..
  also have "\<dots> = set [0..<length xs]" by (simp only: map_snd_zip_upt)
  finally show ?thesis by simp
qed

lemma insertion_argsort_values:
  "map (\<lambda>i. xs ! i) (insertion_argsort xs) = map fst (sort_key fst (zip xs [0..<length xs]))"
  unfolding insertion_argsort_def map_map
  by (rule map_cong) (auto simp: zip_upt_nth)

lemma insertion_argsort_sorts: "sorts_ascending insertion_argsort"
  unfolding sorts_ascending_def
  by (simp add: insertion_argsort_distinct insertion_argsort_set insertion_argsort_values)

lemma lex_insort:
  "sorted_wrt lex_less ys \<Longrightarrow> \<forall>y\<in>set ys. snd x < snd y \<Longrightarrow>
     sorted_wrt lex_less (insort_key fst x ys)"
proof (induction ys)
  case Nil
  then show ?case by simp
next
  case (Cons y ys)
  show ?case
  proof (cases "fst x \<le> fst y")
    case True
    have "lex_less x z" if "z \<in> set (y # ys)" for z
    proof -
      have "fst y \<le> fst z" using that Cons.prems(1) by (auto simp: lex_less_def)
      moreover have "snd x < snd z" using that Cons.prems(2) by auto
      ultimately show ?thesis using True by (auto simp: lex_less_def)
    qed
    with True Cons.prems(1) show ?thesis by simp
  next
    case False
    then have "lex_less y x" by (simp add: lex_less_def)
    with False Cons show ?thesis by (auto simp: set_insort_key)
  qed
qed

lemma lex_sort_zip:
  "sorted_wrt lex_less (sort_key fst (zip xs [m..<m + length xs]))"
proof (induction xs arbitrary: m)
  case Nil
  then show ?case by simp
next
  case (Cons x xs)
  have up: "[m..<m + length (x # xs)] = m # [Suc m..<Suc m + length xs]"
    by (simp add: upt_rec)
  have "m < snd y" if "y \<in> set (zip xs [Suc m..<Suc m + length xs])" for y
  proof -
    from that have "snd y \<in> set [Suc m..<Suc m + length xs]"
      by (metis prod.collapse set_zip_rightD)
    then show ?thesis by auto
  qed
  then have "\<forall>y\<in>set (sort_key fst (zip xs [Suc m..<Suc m + length xs])). m < snd y"
    by simp
  with Cons.IH [of "Suc m"] show ?case
    unfolding up by (simp add: lex_insort)
qed

lemma insertion_argsort_stable: "stable_ascending insertion_argsort"
proof -
  have "sorted_wrt (\<lambda>i j. xs ! i < xs ! j \<or> (xs ! i = xs ! j \<and> i < j)) (insertion_argsort xs)"
    for xs :: "rat list"
  proof -
    let ?sps = "sort_key fst (zip xs [0..<length xs])"
    have "sorted_wrt lex_less ?sps" using lex_sort_zip [of xs 0] by simp
    then have "sorted_wrt (\<lambda>a b. xs ! snd a < xs ! snd b \<or> (xs ! snd a = xs ! snd b \<and> snd a < snd b)) ?sps"
    proof (rule sorted_wrt_mono_rel [rotated])
      fix a b assume "a \<in> set ?sps" "b \<in> set ?sps" "lex_less a b"
      moreover from this have "xs ! snd a = fst a" "xs ! snd b = fst b"
        by (auto simp: set_zip)
      ultimately show "xs ! snd a < xs ! snd b \<or> (xs ! snd a = xs ! snd b \<and> snd a < snd b)"
        by (simp add: lex_less_def)
    qed
    then show ?thesis by (simp add: insertion_argsort_def sorted_wrt_map)
  qed
  then show ?thesis
    unfolding stable_ascending_def
    by (simp add: insertion_argsort_distinct insertion_argsort_set)
qed


section \<open>The order pandas computes\<close>

lemma nargsort_desc_eq:
  "nargsort_desc argsort items =
     rev (map (\<lambda>k. rev (filter (\<lambda>i. items ! i \<noteq> NaN) [0..<length items]) ! k)
            (argsort (map (\<lambda>i. the_num (items ! i))
                        (rev (filter (\<lambda>i. items ! i \<noteq> NaN) [0..<length items]))))) @
     filter (\<lambda>i. items ! i = NaN) [0..<length items]"
  by (simp add: nargsort_desc_def Let_def)

lemma map_nth_perm_set:
  assumes "set p = {0..<length g}"
  shows "set (map (\<lambda>k. g ! k) p) = set g"
proof -
  have "set (map (\<lambda>k. g ! k) p) = (\<lambda>k. g ! k) ` {0..<length g}"
    using assms by simp
  also have "\<dots> = set g" by (simp add: nth_image)
  finally show ?thesis .
qed

lemma map_nth_perm_distinct:
  assumes "distinct p" and "set p = {0..<length g}" and "distinct g"
  shows "distinct (map (\<lambda>k. g ! k) p)"
proof -
  have "inj_on (\<lambda>k. g ! k) (set p)"
    using assms(2,3) by (intro inj_on_nth) simp_all
  with assms(1) show ?thesis by (simp add: distinct_map)
qed

lemma nargsort_desc_perm:
  assumes "sorts_ascending argsort"
  shows "distinct (nargsort_desc argsort items) \<and>
         set (nargsort_desc argsort items) = {0..<length items}"
proof -
  let ?g = "rev (filter (\<lambda>i. items ! i \<noteq> NaN) [0..<length items])"
  let ?vals = "map (\<lambda>i. the_num (items ! i)) ?g"
  let ?p = "argsort ?vals"
  let ?nan = "filter (\<lambda>i. items ! i = NaN) [0..<length items]"
  from assms have p: "distinct ?p" "set ?p = {0..<length ?g}"
    unfolding sorts_ascending_def by (metis length_map)+
  have dg: "distinct ?g" by simp
  have s1: "set (map (\<lambda>k. ?g ! k) ?p) = set ?g" by (rule map_nth_perm_set [OF p(2)])
  have d1: "distinct (map (\<lambda>k. ?g ! k) ?p)" by (rule map_nth_perm_distinct [OF p dg])
  have disj: "set ?g \<inter> set ?nan = {}" by auto
  have un: "set ?g \<union> set ?nan = {0..<length items}" by auto
  show ?thesis
    unfolding nargsort_desc_eq using s1 d1 disj un
    by (simp only: distinct_append distinct_rev set_append set_rev distinct_filter distinct_upt)
qed

lemma nargsort_desc_order:
  assumes "sorts_ascending argsort"
  shows "sorted_wrt ranks_before (map (\<lambda>p. (items ! p, p)) (nargsort_desc argsort items))"
proof -
  let ?g = "rev (filter (\<lambda>i. items ! i \<noteq> NaN) [0..<length items])"
  let ?vals = "map (\<lambda>i. the_num (items ! i)) ?g"
  let ?p = "argsort ?vals"
  let ?nan = "filter (\<lambda>i. items ! i = NaN) [0..<length items]"
  let ?out1 = "map (\<lambda>k. ?g ! k) ?p"
  from assms have p: "set ?p = {0..<length ?g}" and srt: "sorted (map (\<lambda>i. ?vals ! i) ?p)"
    unfolding sorts_ascending_def by (metis length_map)+
  have s1: "set ?out1 = set ?g" by (rule map_nth_perm_set [OF p])
  have num: "\<exists>a. items ! x = Num a" if "x \<in> set ?out1" for x
  proof -
    from that s1 have "items ! x \<noteq> NaN" by auto
    then show ?thesis by (cases "items ! x") auto
  qed
  have "map (\<lambda>i. ?vals ! i) ?p = map (\<lambda>x. the_num (items ! x)) ?out1"
    unfolding map_map by (rule map_cong) (use p in auto)
  with srt have "sorted (map (\<lambda>x. the_num (items ! x)) ?out1)" by simp
  then have "sorted_wrt (\<lambda>x y. the_num (items ! x) \<le> the_num (items ! y)) ?out1"
    by (simp add: sorted_wrt_map)
  then have "sorted_wrt (\<lambda>x y. ranks_before (items ! y, y) (items ! x, x)) ?out1"
  proof (rule sorted_wrt_mono_rel [rotated])
    fix x y assume "x \<in> set ?out1" "y \<in> set ?out1"
      and le: "the_num (items ! x) \<le> the_num (items ! y)"
    then obtain a b where "items ! x = Num a" "items ! y = Num b" using num by blast
    with le show "ranks_before (items ! y, y) (items ! x, x)" by simp
  qed
  then have part1: "sorted_wrt ranks_before (map (\<lambda>p. (items ! p, p)) (rev ?out1))"
    by (simp add: sorted_wrt_map sorted_wrt_rev)
  have "sorted_wrt (<) ?nan" by (intro sorted_wrt_filter) simp
  then have "sorted_wrt (\<lambda>x y. ranks_before (items ! x, x) (items ! y, y)) ?nan"
  proof (rule sorted_wrt_mono_rel [rotated])
    fix x y assume "x \<in> set ?nan" "y \<in> set ?nan" "x < y"
    then show "ranks_before (items ! x, x) (items ! y, y)" by simp
  qed
  then have part2: "sorted_wrt ranks_before (map (\<lambda>p. (items ! p, p)) ?nan)"
    by (simp add: sorted_wrt_map)
  have cross: "ranks_before (items ! x, x) (items ! y, y)"
    if "x \<in> set ?out1" "y \<in> set ?nan" for x y
  proof -
    from that(1) obtain a where "items ! x = Num a" using num by blast
    moreover from that(2) have "items ! y = NaN" by simp
    ultimately show ?thesis by simp
  qed
  show ?thesis
    unfolding nargsort_desc_eq map_append sorted_wrt_append
    using part1 part2 cross by auto
qed


lemma stable_ascending_set: "stable_ascending argsort \<Longrightarrow> set (argsort xs) = {0..<length xs}"
  by (simp add: stable_ascending_def)

lemma stable_ascending_sorted:
  "stable_ascending argsort \<Longrightarrow>
     sorted_wrt (\<lambda>i j. xs ! i < xs ! j \<or> (xs ! i = xs ! j \<and> i < j)) (argsort xs)"
  by (simp add: stable_ascending_def)

lemma nargsort_desc_stable_order:
  assumes "stable_ascending argsort"
  shows "sorted_wrt stably_before (map (\<lambda>p. (items ! p, p)) (nargsort_desc argsort items))"
proof -
  let ?g = "rev (filter (\<lambda>i. items ! i \<noteq> NaN) [0..<length items])"
  let ?vals = "map (\<lambda>i. the_num (items ! i)) ?g"
  let ?p = "argsort ?vals"
  let ?nan = "filter (\<lambda>i. items ! i = NaN) [0..<length items]"
  let ?out1 = "map (\<lambda>k. ?g ! k) ?p"
  have p: "set ?p = {0..<length ?g}"
    using stable_ascending_set [OF assms, of ?vals] by simp
  have srt: "sorted_wrt (\<lambda>i j. ?vals ! i < ?vals ! j \<or> (?vals ! i = ?vals ! j \<and> i < j)) ?p"
    by (rule stable_ascending_sorted [OF assms])
  have s1: "set ?out1 = set ?g" by (rule map_nth_perm_set [OF p])
  have "sorted_wrt (<) (filter (\<lambda>i. items ! i \<noteq> NaN) [0..<length items])"
    by (intro sorted_wrt_filter) simp
  then have dec: "sorted_wrt (\<lambda>x y. y < x) ?g" by (simp add: sorted_wrt_rev)
  have val: "items ! (?g ! k) = Num (?vals ! k)" if "k < length ?g" for k
  proof -
    from that have "?g ! k \<in> set ?g" by (rule nth_mem)
    then have "items ! (?g ! k) \<noteq> NaN" by simp
    then obtain a where "items ! (?g ! k) = Num a" by (cases "items ! (?g ! k)") auto
    with that show ?thesis by (simp add: nth_map del: rev_filter)
  qed
  have "sorted_wrt (\<lambda>i j. stably_before (items ! (?g ! j), ?g ! j) (items ! (?g ! i), ?g ! i)) ?p"
    using srt
  proof (rule sorted_wrt_mono_rel [rotated])
    fix i j assume "i \<in> set ?p" "j \<in> set ?p"
      and r: "?vals ! i < ?vals ! j \<or> (?vals ! i = ?vals ! j \<and> i < j)"
    with p have i: "i < length ?g" and j: "j < length ?g" by auto
    have "?g ! j < ?g ! i" if "i < j"
      using sorted_wrt_nth_less [OF dec that j] .
    with r show "stably_before (items ! (?g ! j), ?g ! j) (items ! (?g ! i), ?g ! i)"
      unfolding val [OF i] val [OF j] by auto
  qed
  then have part1: "sorted_wrt stably_before (map (\<lambda>p. (items ! p, p)) (rev ?out1))"
    by (simp add: sorted_wrt_map sorted_wrt_rev del: rev_filter)
  have "sorted_wrt (<) ?nan" by (intro sorted_wrt_filter) simp
  then have "sorted_wrt (\<lambda>x y. stably_before (items ! x, x) (items ! y, y)) ?nan"
  proof (rule sorted_wrt_mono_rel [rotated])
    fix x y assume "x \<in> set ?nan" "y \<in> set ?nan" "x < y"
    then show "stably_before (items ! x, x) (items ! y, y)" by simp
  qed
  then have part2: "sorted_wrt stably_before (map (\<lambda>p. (items ! p, p)) ?nan)"
    by (simp add: sorted_wrt_map)
  have cross: "stably_before (items ! x, x) (items ! y, y)"
    if "x \<in> set ?out1" "y \<in> set ?nan" for x y
  proof -
    from that(1) s1 have "items ! x \<noteq> NaN" by auto
    then obtain a where "items ! x = Num a" by (cases "items ! x") auto
    moreover from that(2) have "items ! y = NaN" by simp
    ultimately show ?thesis by simp
  qed
  show ?thesis
    unfolding nargsort_desc_eq map_append sorted_wrt_append
    using part1 part2 cross by auto
qed


section \<open>The first rows\<close>

lemma head_take:
  "head n xs = take (if 0 \<le> n then nat n else length xs - nat (- n)) xs"
  by (simp add: head_def)

lemma length_head:
  "length (head n xs) = (if 0 \<le> n then min (nat n) (length xs) else length xs - nat (- n))"
  by (auto simp: head_def)

lemma head_all: "int (length xs) \<le> n \<Longrightarrow> head n xs = xs"
  by (simp add: head_def)

lemma distinct_head: "distinct xs \<Longrightarrow> distinct (head n xs)"
  by (simp add: head_def)

lemma set_head_subset: "set (head n xs) \<subseteq> set xs"
  by (auto simp: head_def dest: in_set_takeD)

lemma sorted_wrt_head: "sorted_wrt P xs \<Longrightarrow> sorted_wrt P (head n xs)"
  by (simp add: head_def)

lemma map_head: "map f (head n xs) = head n (map f xs)"
  by (simp add: head_def take_map)

section \<open>The returned ranking\<close>

lemma length_hybrid_scores:
  "length (hybrid_scores alpha cf ct) = min (length cf) (length ct)"
  by (simp add: hybrid_scores_def)

lemma hybrid_recommend_Inr:
  assumes "movie_title \<in> title ` snd ` set (filtered_movies selected_genres movies_df)"
    and "hybrid_recommend argsort fetch_poster fetch_trailer selected_genres
           user_id movie_title movies_df preds_df similarity top_n alpha = Inr recs"
  shows "\<exists>cf idx ct.
           cf_norm preds_df user_id (map fst (filtered_movies selected_genres movies_df)) = Inr cf \<and>
           seed_idx (filtered_movies selected_genres movies_df) movie_title = Inr idx \<and>
           content_norm similarity idx (map fst (filtered_movies selected_genres movies_df)) = Inr ct \<and>
           length (hybrid_scores alpha cf ct) = length (filtered_movies selected_genres movies_df) \<and>
           recs = recommendations argsort fetch_poster fetch_trailer
                    (filtered_movies selected_genres movies_df) (hybrid_scores alpha cf ct) top_n"
proof -
  let ?fm = "filtered_movies selected_genres movies_df"
  have t: "movie_title \<in> set (map (title \<circ> snd) ?fm)"
    using assms(1) by (simp add: image_image)
  from assms(2) t obtain cf where cf: "cf_norm preds_df user_id (map fst ?fm) = Inr cf"
    by (cases "cf_norm preds_df user_id (map fst ?fm)") (auto simp: hybrid_recommend_def Let_def)
  from assms(2) t cf obtain idx where idx: "seed_idx ?fm movie_title = Inr idx"
    by (cases "seed_idx ?fm movie_title") (auto simp: hybrid_recommend_def Let_def)
  from assms(2) t cf idx obtain ct where ct: "content_norm similarity idx (map fst ?fm) = Inr ct"
    by (cases "content_norm similarity idx (map fst ?fm)") (auto simp: hybrid_recommend_def Let_def)
  have len: "length (hybrid_scores alpha cf ct) = length ?fm"
    using cf_norm_length [OF cf] content_norm_length [OF ct] by (simp add: length_hybrid_scores)
  have "recs = recommendations argsort fetch_poster fetch_trailer ?fm (hybrid_scores alpha cf ct) top_n"
    using assms(2) t cf idx ct by (simp add: hybrid_recommend_def Let_def)
  with cf idx ct len show ?thesis by blast
qed

text \<open>
  C6 (as amended). Let \<^verbatim>\<open>argsort\<close> sort ascending, let a candidate row carry the seed
  title and let the call return a frame. Its rows are the rows of distinct candidates, at
  positions \<open>ps\<close> of the filtered frame, each with its blended score. For \<open>top_n \<ge> 0\<close>
  there are \<open>min top_n (len candidates)\<close> of them, so all candidates, each once, when
  \<open>top_n\<close> is at least their number. Rows whose score is a number come first, in
  descending order of score; rows whose score is NaN follow, in catalog order. When
  \<^verbatim>\<open>argsort\<close> is moreover stable, rows with equal score stand in catalog order; for a
  sort that is not stable the code fixes no order among them.
\<close>

theorem ranking_order_and_size:
  assumes "sorts_ascending argsort"
    and "movie_title \<in> title ` snd ` set (filtered_movies selected_genres movies_df)"
    and "hybrid_recommend argsort fetch_poster fetch_trailer selected_genres
           user_id movie_title movies_df preds_df similarity top_n alpha = Inr recs"
  shows "\<exists>hs ps.
           length hs = length (filtered_movies selected_genres movies_df) \<and>
           recs = map (rec_row fetch_poster fetch_trailer
                         (filtered_movies selected_genres movies_df) hs) ps \<and>
           distinct ps \<and>
           set ps \<subseteq> {0..<length (filtered_movies selected_genres movies_df)} \<and>
           length recs =
             (if 0 \<le> top_n
              then min (nat top_n) (length (filtered_movies selected_genres movies_df))
              else length (filtered_movies selected_genres movies_df) - nat (- top_n)) \<and>
           (int (length (filtered_movies selected_genres movies_df)) \<le> top_n \<longrightarrow>
              set ps = {0..<length (filtered_movies selected_genres movies_df)}) \<and>
           sorted_wrt ranks_before (map (\<lambda>p. (hs ! p, p)) ps) \<and>
           (stable_ascending argsort \<longrightarrow>
              sorted_wrt stably_before (map (\<lambda>p. (hs ! p, p)) ps))"
proof -
  let ?fm = "filtered_movies selected_genres movies_df"
  from hybrid_recommend_Inr [OF assms(2,3)] obtain cf ct where
    len: "length (hybrid_scores alpha cf ct) = length ?fm" and
    recs: "recs = recommendations argsort fetch_poster fetch_trailer ?fm
                    (hybrid_scores alpha cf ct) top_n"
    by blast
  let ?hs = "hybrid_scores alpha cf ct"
  let ?full = "nargsort_desc argsort ?hs"
  let ?ps = "top_idx argsort ?hs top_n"
  from nargsort_desc_perm [OF assms(1), of ?hs] len
  have dist: "distinct ?full" and setf: "set ?full = {0..<length ?fm}" by simp_all
  from dist setf have lenf: "length ?full = length ?fm"
    by (metis card_atLeastLessThan diff_zero distinct_card)
  have c1: "recs = map (rec_row fetch_poster fetch_trailer ?fm ?hs) ?ps"
    using recs by (simp add: recommendations_def)
  have c2: "distinct ?ps" using dist by (simp add: top_idx_def distinct_head)
  have c3: "set ?ps \<subseteq> {0..<length ?fm}"
    using set_head_subset [of top_n ?full] setf by (simp add: top_idx_def)
  have c4: "length recs = (if 0 \<le> top_n then min (nat top_n) (length ?fm)
                           else length ?fm - nat (- top_n))"
    unfolding c1 by (simp add: top_idx_def length_head lenf)
  have c5: "set ?ps = {0..<length ?fm}" if "int (length ?fm) \<le> top_n"
    using that setf lenf by (simp add: top_idx_def head_all)
  have c6: "sorted_wrt ranks_before (map (\<lambda>p. (?hs ! p, p)) ?ps)"
    using nargsort_desc_order [OF assms(1), of ?hs]
    by (simp add: top_idx_def map_head sorted_wrt_head)
  have c7: "sorted_wrt stably_before (map (\<lambda>p. (?hs ! p, p)) ?ps)" if "stable_ascending argsort"
    using nargsort_desc_stable_order [OF that, of ?hs]
    by (simp add: top_idx_def map_head sorted_wrt_head)
  from len c1 c2 c3 c4 c5 c6 c7 show ?thesis by blast
qed



lemma nargsort_nan_0: "nargsort_desc insertion_argsort [NaN, Num 0] = [1, 0]"
  by (simp add: nargsort_desc_def insertion_argsort_def Let_def upt_rec)

text \<open>
  C6 as the spec states it fails. With the genre filter Drama the candidates are B and E
  and \<open>top_n = 10\<close> exceeds their number; the seed E is a candidate and user 7 is known:
  the call raises ValueError instead of returning two rows. Without a filter, for a user
  whose single-entry CF row covers A only, A's score is NaN and B's is 0: the returned
  scores are not all numbers, and the NaN row is last although A is the seed itself.
\<close>

theorem ranking_counterexample:
  "hybrid_recommend insertion_argsort no_url no_url [''Drama''] 7 ''E'' catalog5 preds5
     similarity5 10 (1/10) = Inl (ValueError LengthMismatch) \<and>
   hybrid_recommend insertion_argsort no_url no_url [] 7 ''A'' catalog2 preds_partial
     similarity2 10 (1/10) =
     Inr [\<lparr>rec_title = ''B'', poster = None, trailer = None, hybrid_score = Num 0, rec_id = 12\<rparr>,
          \<lparr>rec_title = ''A'', poster = None, trailer = None, hybrid_score = NaN, rec_id = 11\<rparr>]"
  apply (intro conjI)
   apply (simp add: hybrid_recommend_def filtered_catalog5_Drama cf_norm_cases preds5_def
      seed_idx_def content_norm_def similarity5_def)
  apply (simp add: hybrid_recommend_def filtered_catalog2_all cf_norm_cases preds_partial_def
      minmax_def seed_idx_def content_norm_def similarity2_def hybrid_scores_def
      recommendations_def top_idx_def head_def nargsort_nan_0 rec_row_def no_url_def)
  done

lemma nargsort_h5:
  "nargsort_desc insertion_argsort [Num (39/40), Num (1/40), Num (3/10), Num (1/10), Num (7/20)]
     = [0, 4, 2, 3, 1]"
  by (simp add: nargsort_desc_def insertion_argsort_def Let_def upt_rec)

lemma recs5:
  "hybrid_recommend insertion_argsort no_url no_url [] 7 ''A'' catalog5 preds5 similarity5
     10 (1/10) =
   Inr [\<lparr>rec_title = ''A'', poster = None, trailer = None, hybrid_score = Num (39/40), rec_id = 11\<rparr>,
        \<lparr>rec_title = ''E'', poster = None, trailer = None, hybrid_score = Num (7/20), rec_id = 15\<rparr>,
        \<lparr>rec_title = ''C'', poster = None, trailer = None, hybrid_score = Num (3/10), rec_id = 13\<rparr>,
        \<lparr>rec_title = ''D'', poster = None, trailer = None, hybrid_score = Num (1/10), rec_id = 14\<rparr>,
        \<lparr>rec_title = ''B'', poster = None, trailer = None, hybrid_score = Num (1/40), rec_id = 12\<rparr>]"
  by (simp add: hybrid_recommend_def filtered_catalog5_all cf_norm_cases preds5_def
      minmax_def seed_idx_def content_norm_def similarity5_def hybrid_scores_def
      recommendations_def top_idx_def head_def nargsort_h5 rec_row_def no_url_def)

theorem ranking_order_and_size_witness:
  "sorts_ascending insertion_argsort \<and>
   ''A'' \<in> title ` snd ` set (filtered_movies [] catalog5) \<and>
   hybrid_recommend insertion_argsort no_url no_url [] 7 ''A'' catalog5 preds5 similarity5
     10 (1/10) =
   Inr [\<lparr>rec_title = ''A'', poster = None, trailer = None, hybrid_score = Num (39/40), rec_id = 11\<rparr>,
        \<lparr>rec_title = ''E'', poster = None, trailer = None, hybrid_score = Num (7/20), rec_id = 15\<rparr>,
        \<lparr>rec_title = ''C'', poster = None, trailer = None, hybrid_score = Num (3/10), rec_id = 13\<rparr>,
        \<lparr>rec_title = ''D'', poster = None, trailer = None, hybrid_score = Num (1/10), rec_id = 14\<rparr>,
        \<lparr>rec_title = ''B'', poster = None, trailer = None, hybrid_score = Num (1/40), rec_id = 12\<rparr>] \<and>
   (\<exists>hs ps. length hs = 5 \<and> distinct ps \<and> set ps = {0..<5} \<and>
      sorted_wrt ranks_before (map (\<lambda>p. (hs ! p, p)) ps) \<and>
      sorted_wrt stably_before (map (\<lambda>p. (hs ! p, p)) ps))"
proof -
  have h1: "sorts_ascending insertion_argsort" by (rule insertion_argsort_sorts)
  have h2: "''A'' \<in> title ` snd ` set (filtered_movies [] catalog5)"
    by (simp add: filtered_catalog5_all)
  have len: "length (filtered_movies [] catalog5) = 5" by (simp add: filtered_catalog5_all)
  from ranking_order_and_size [OF h1 h2 recs5] obtain hs ps where
    "length hs = length (filtered_movies [] catalog5)" "distinct ps"
    "int (length (filtered_movies [] catalog5)) \<le> 10 \<longrightarrow>
       set ps = {0..<length (filtered_movies [] catalog5)}"
    "sorted_wrt ranks_before (map (\<lambda>p. (hs ! p, p)) ps)"
    "stable_ascending insertion_argsort \<longrightarrow> sorted_wrt stably_before (map (\<lambda>p. (hs ! p, p)) ps)"
    by blast
  with len insertion_argsort_stable
  have "\<exists>hs ps. length hs = 5 \<and> distinct ps \<and> set ps = {0..<5} \<and>
      sorted_wrt ranks_before (map (\<lambda>p. (hs ! p, p)) ps) \<and>
      sorted_wrt stably_before (map (\<lambda>p. (hs ! p, p)) ps)"
    by auto
  with h1 h2 recs5 show ?thesis by blast
qed



section \<open>Raising one raw CF score\<close>

subsection \<open>Two inequalities between quotients\<close>

lemma frac_cross_le:
  fixes a b c d :: rat
  assumes "0 < c" and "0 < d" and "a * d \<le> b * c"
  shows "a / c \<le> b / d"
proof -
  from assms(2,3) have "a \<le> b * c / d" by (rule mult_imp_le_div_pos)
  then have "a \<le> b / d * c" by simp
  with assms(1) show ?thesis by (rule mult_imp_div_pos_le)
qed

lemma norm_other_le:
  fixes x lo hi lo' hi' :: rat
  assumes "lo \<le> lo'" and "hi \<le> hi'" and "lo' \<le> x" and "x \<le> hi" and "lo < hi" and "lo' < hi'"
  shows "(x - lo') / (hi' - lo') \<le> (x - lo) / (hi - lo)"
proof (rule frac_cross_le)
  show "0 < hi' - lo'" using assms(6) by simp
  show "0 < hi - lo" using assms(5) by simp
  have "(x - lo) * (hi' - lo') - (x - lo') * (hi - lo) =
        (x - lo) * (hi' - hi) + (lo' - lo) * (hi - x)"
    by (simp add: algebra_simps)
  moreover have "0 \<le> (x - lo) * (hi' - hi)"
    using assms(1-3) by (intro mult_nonneg_nonneg) simp_all
  moreover have "0 \<le> (lo' - lo) * (hi - x)"
    using assms(1,4) by (intro mult_nonneg_nonneg) simp_all
  ultimately show "(x - lo') * (hi - lo) \<le> (x - lo) * (hi' - lo')" by simp
qed

lemma norm_raised_ge:
  fixes x x' lo hi lo' hi' :: rat
  assumes "x < x'" and "lo \<le> x" and "x \<le> hi" and "lo' \<le> x'" and "x' \<le> hi'"
    and "lo < hi" and "lo' < hi'"
    and "hi' = x' \<or> hi' = hi" and "lo' = lo \<or> x = lo"
  shows "(x - lo) / (hi - lo) \<le> (x' - lo') / (hi' - lo')"
proof (cases "hi' = x'")
  case True
  have "(x - lo) / (hi - lo) \<le> 1" using assms(2,3,6) by (simp add: divide_le_eq)
  also have "1 = (x' - lo') / (hi' - lo')" using True assms(7) by simp
  finally show ?thesis .
next
  case False
  with assms(8) have hi: "hi' = hi" by simp
  show ?thesis
  proof (cases "x = lo")
    case True
    then have "(x - lo) / (hi - lo) = 0" by simp
    also have "0 \<le> (x' - lo') / (hi' - lo')" using assms(4,7) by simp
    finally show ?thesis .
  next
    case False
    with assms(9) have "lo' = lo" by simp
    with hi assms(1,6) show ?thesis by (simp add: divide_right_mono)
  qed
qed

subsection \<open>Standing before another entry in a sorted list\<close>

lemma precedes_related:
  assumes "sorted_wrt R (map f xs)" and "precedes a b xs" and "b \<in> set xs"
  shows "R (f a) (f b)"
proof -
  let ?t = "takeWhile (\<lambda>x. x \<noteq> b) xs" and ?d = "dropWhile (\<lambda>x. x \<noteq> b) xs"
  have "sorted_wrt R (map f (?t @ ?d))" using assms(1) by simp
  then have "\<forall>x\<in>set ?t. \<forall>y\<in>set ?d. R (f x) (f y)"
    unfolding map_append sorted_wrt_append by simp
  moreover have "a \<in> set ?t" using assms(2) by (simp add: precedes_def)
  moreover have "b \<in> set ?d" using assms(3)
    by (metis (mono_tags, lifting) dropWhile_eq_Nil_conv hd_dropWhile hd_in_set)
  ultimately show ?thesis by blast
qed

lemma precedesI:
  assumes "sorted_wrt R (map f xs)" and "a \<in> set xs" and "b \<in> set xs" and "a \<noteq> b"
    and "\<not> R (f b) (f a)"
  shows "precedes a b xs"
proof (rule ccontr)
  let ?t = "takeWhile (\<lambda>x. x \<noteq> b) xs" and ?d = "dropWhile (\<lambda>x. x \<noteq> b) xs"
  assume "\<not> precedes a b xs"
  then have "a \<notin> set ?t" by (simp add: precedes_def)
  moreover have "set xs = set ?t \<union> set ?d" by (metis set_append takeWhile_dropWhile_id)
  ultimately have a: "a \<in> set ?d" using assms(2) by blast
  have "?d \<noteq> []" using assms(3) by (simp add: dropWhile_eq_Nil_conv)
  moreover from this have "hd ?d = b" using hd_dropWhile [of "\<lambda>x. x \<noteq> b" xs] by simp
  ultimately obtain rest where d: "?d = b # rest" by (cases ?d) auto
  with a assms(4) have "a \<in> set rest" by simp
  have "sorted_wrt R (map f (?t @ ?d))" using assms(1) by simp
  then have "sorted_wrt R (map f ?d)" unfolding map_append sorted_wrt_append by simp
  with d \<open>a \<in> set rest\<close> have "R (f b) (f a)" by simp
  with assms(5) show False by contradiction
qed


subsection \<open>The row with one entry raised\<close>

lemma distinct_fst_imp_distinct: "distinct (map fst r) \<Longrightarrow> distinct r"
  by (simp add: distinct_map)

lemma map_fst_update_same:
  "k < length r \<Longrightarrow> map fst (r[k := (fst (r ! k), v)]) = map fst r"
  by (simp add: map_update list_update_same_conv)

lemma set_update_row:
  assumes "distinct (map fst r)" and "k < length r"
  shows "set (r[k := (fst (r ! k), v)]) = insert (fst (r ! k), v) (set r - {r ! k})"
  using assms by (simp add: set_update_distinct distinct_fst_imp_distinct)

lemma map_of_at:
  assumes "distinct (map fst r)" and "k < length r"
  shows "map_of r (fst (r ! k)) = Some (snd (r ! k))"
proof -
  have "(fst (r ! k), snd (r ! k)) \<in> set r" using assms(2) by simp
  with assms(1) show ?thesis by simp
qed

lemma map_of_update_at:
  assumes "distinct (map fst r)" and "k < length r"
  shows "map_of (r[k := (fst (r ! k), v)]) (fst (r ! k)) = Some v"
proof -
  have d: "distinct (map fst (r[k := (fst (r ! k), v)]))"
    using assms by (simp only: map_fst_update_same)
  have "(fst (r ! k), v) \<in> set (r[k := (fst (r ! k), v)])"
    using assms(2) by (rule set_update_memI)
  with d show ?thesis by (simp only: map_of_eq_Some_iff)
qed

lemma map_of_update_other:
  assumes "distinct (map fst r)" and "k < length r" and "l \<noteq> fst (r ! k)"
  shows "map_of (r[k := (fst (r ! k), v)]) l = map_of r l"
proof -
  have d: "distinct (map fst (r[k := (fst (r ! k), v)]))"
    using assms by (simp only: map_fst_update_same)
  have mem: "(l, y) \<in> set (r[k := (fst (r ! k), v)]) \<longleftrightarrow> (l, y) \<in> set r" for y
  proof -
    have "(l, y) \<noteq> r ! k" using assms(3) by (metis fst_conv)
    moreover have "(l, y) \<noteq> (fst (r ! k), v)" using assms(3) by simp
    ultimately show ?thesis unfolding set_update_row [OF assms(1,2)] by auto
  qed
  have "map_of (r[k := (fst (r ! k), v)]) l = Some y \<longleftrightarrow> map_of r l = Some y" for y
    using mem [of y] d assms(1) by (simp only: map_of_eq_Some_iff)
  then show ?thesis by (metis option.exhaust)
qed

lemma raise_in_set:
  fixes x v :: rat
  assumes "finite A" and "x < v"
  shows "Min (insert x A) \<le> Min (insert v A)"
    and "Max (insert x A) \<le> Max (insert v A)"
    and "Max (insert v A) = v \<or> Max (insert v A) = Max (insert x A)"
    and "Min (insert v A) = Min (insert x A) \<or> x = Min (insert x A)"
proof -
  have "Min (insert x A) \<le> Min (insert v A) \<and> Max (insert x A) \<le> Max (insert v A) \<and>
        (Max (insert v A) = v \<or> Max (insert v A) = Max (insert x A)) \<and>
        (Min (insert v A) = Min (insert x A) \<or> x = Min (insert x A))"
  proof (cases "A = {}")
    case True
    with assms(2) show ?thesis by simp
  next
    case False
    with assms(1) have "Min (insert x A) = min x (Min A)" "Min (insert v A) = min v (Min A)"
      "Max (insert x A) = max x (Max A)" "Max (insert v A) = max v (Max A)"
      by simp_all
    with assms(2) show ?thesis by (auto simp: min_def max_def)
  qed
  then show "Min (insert x A) \<le> Min (insert v A)"
    and "Max (insert x A) \<le> Max (insert v A)"
    and "Max (insert v A) = v \<or> Max (insert v A) = Max (insert x A)"
    and "Min (insert v A) = Min (insert x A) \<or> x = Min (insert x A)"
    by simp_all
qed

text \<open>Minimum and maximum of the row before and after raising entry k.\<close>

lemma raised_bounds:
  fixes r :: "(nat \<times> rat) list"
  assumes "distinct (map fst r)" and "k < length r" and "snd (r ! k) < v"
  defines "r' \<equiv> r[k := (fst (r ! k), v)]"
  defines "lo \<equiv> Min (snd ` set r)" and "hi \<equiv> Max (snd ` set r)"
  defines "lo' \<equiv> Min (snd ` set r')" and "hi' \<equiv> Max (snd ` set r')"
  shows "lo \<le> lo'" and "hi \<le> hi'"
    and "hi' = v \<or> hi' = hi" and "lo' = lo \<or> snd (r ! k) = lo"
    and "lo \<le> snd (r ! k)" and "snd (r ! k) \<le> hi" and "lo' \<le> v" and "v \<le> hi'"
    and "\<And>l y. (l, y) \<in> set r \<Longrightarrow> l \<noteq> fst (r ! k) \<Longrightarrow> lo' \<le> y \<and> y \<le> hi"
proof -
  let ?x = "snd (r ! k)"
  let ?O = "snd ` (set r - {r ! k})"
  have S: "snd ` set r = insert ?x ?O"
  proof -
    have e: "set r = insert (r ! k) (set r - {r ! k})" using assms(2) by auto
    have "snd ` set r = snd ` insert (r ! k) (set r - {r ! k})"
      by (rule arg_cong [OF e])
    also have "\<dots> = insert ?x ?O" by (rule image_insert)
    finally show ?thesis .
  qed
  have S': "snd ` set r' = insert v ?O"
    unfolding r'_def set_update_row [OF assms(1,2)] by simp
  have fin: "finite ?O" by simp
  show others: "lo' \<le> y \<and> y \<le> hi" if "(l, y) \<in> set r" "l \<noteq> fst (r ! k)" for l y
  proof -
    have "(l, y) \<noteq> r ! k" using that(2) by (metis fst_conv)
    with that(1) have "(l, y) \<in> set r - {r ! k}" by simp
    then have "y \<in> ?O" by force
    then have "y \<in> snd ` set r'" "y \<in> snd ` set r" unfolding S S' by simp_all
    then show ?thesis unfolding lo'_def hi_def by simp
  qed
  show "lo \<le> ?x" "?x \<le> hi" unfolding lo_def hi_def S by simp_all
  show "lo' \<le> v" "v \<le> hi'" unfolding lo'_def hi'_def S' by simp_all
  show "lo \<le> lo'" "hi \<le> hi'" "hi' = v \<or> hi' = hi" "lo' = lo \<or> ?x = lo"
    unfolding lo_def hi_def lo'_def hi'_def S S'
    using raise_in_set [OF fin assms(3)] by simp_all
qed

lemma hybrid_scores_nth:
  "i < length cf \<Longrightarrow> i < length ct \<Longrightarrow>
     hybrid_scores alpha cf ct ! i =
       fadd (fmul (Num alpha) (cf ! i)) (fmul (Num (1 - alpha)) (ct ! i))"
  by (simp add: hybrid_scores_def)

lemma not_NaN_nth: "NaN \<notin> set ct \<Longrightarrow> i < length ct \<Longrightarrow> \<exists>c. ct ! i = Num c"
  by (metis fval.exhaust nth_mem)


text \<open>The CF scores of the raised candidate and of another candidate, before and after.\<close>

lemma cf_raised:
  assumes "preds_df user_id = Some r" and "distinct (map fst r)"
    and "k < length r" and "snd (r ! k) < v"
    and "Min (snd ` set r) < Max (snd ` set r)"
    and "Min (snd ` set (r[k := (fst (r ! k), v)])) < Max (snd ` set (r[k := (fst (r ! k), v)]))"
    and "i < length labels" and "labels ! i = fst (r ! k)"
    and "j < length labels" and "labels ! j \<noteq> fst (r ! k)"
  shows "\<exists>cf cf' n n' m m'.
           cf_norm preds_df user_id labels = Inr cf \<and>
           cf_norm (preds_df(user_id \<mapsto> r[k := (fst (r ! k), v)])) user_id labels = Inr cf' \<and>
           length cf = length labels \<and> length cf' = length labels \<and>
           cf ! i = Num n \<and> cf' ! i = Num n' \<and> n \<le> n' \<and>
           cf ! j = Num m \<and> cf' ! j = Num m' \<and> m' \<le> m"
proof -
  let ?r' = "r[k := (fst (r ! k), v)]"
  let ?lo = "Min (snd ` set r)" and ?hi = "Max (snd ` set r)"
  let ?lo' = "Min (snd ` set ?r')" and ?hi' = "Max (snd ` set ?r')"
  let ?cf = "map (\<lambda>l. case map_of r l of None \<Rightarrow> Num 0
                      | Some x \<Rightarrow> if ?hi = ?lo then NaN else Num ((x - ?lo) / (?hi - ?lo))) labels"
  let ?cf' = "map (\<lambda>l. case map_of ?r' l of None \<Rightarrow> Num 0
                      | Some x \<Rightarrow> if ?hi' = ?lo' then NaN else Num ((x - ?lo') / (?hi' - ?lo'))) labels"
  note b = raised_bounds [OF assms(2,3,4)]
  have d': "distinct (map fst ?r')" using assms(2,3) by (simp only: map_fst_update_same)
  have e1: "cf_norm preds_df user_id labels = Inr ?cf"
    by (rule cf_norm_eq [where preds_df = preds_df and user_id = user_id and r = r,
          OF assms(1,2)])
  have e2: "cf_norm (preds_df(user_id \<mapsto> ?r')) user_id labels = Inr ?cf'"
    by (rule cf_norm_eq [where preds_df = "preds_df(user_id \<mapsto> ?r')" and user_id = user_id
          and r = ?r', OF _ d']) simp
  have ne: "?hi \<noteq> ?lo" "?hi' \<noteq> ?lo'" using assms(5,6) by simp_all
  have i1: "?cf ! i = Num ((snd (r ! k) - ?lo) / (?hi - ?lo))"
    using assms(7,8) ne(1) map_of_at [OF assms(2,3)] by simp
  have i2: "?cf' ! i = Num ((v - ?lo') / (?hi' - ?lo'))"
    using assms(7,8) ne(2) map_of_update_at [OF assms(2,3), of v] by simp
  have i3: "(snd (r ! k) - ?lo) / (?hi - ?lo) \<le> (v - ?lo') / (?hi' - ?lo')"
    using assms(4) b(5) b(6) b(7) b(8) assms(5) assms(6) b(3) b(4)
    by (rule norm_raised_ge)
  have same: "map_of ?r' (labels ! j) = map_of r (labels ! j)"
    by (rule map_of_update_other [OF assms(2,3,10)])
  have j3: "\<exists>m m'. ?cf ! j = Num m \<and> ?cf' ! j = Num m' \<and> m' \<le> m"
  proof (cases "map_of r (labels ! j)")
    case None
    with same assms(9) have "?cf ! j = Num 0" "?cf' ! j = Num 0" by simp_all
    then show ?thesis by auto
  next
    case (Some y)
    then have mem: "(labels ! j, y) \<in> set r" by (rule map_of_SomeD)
    from b(9) [OF mem assms(10)] have y: "?lo' \<le> y" "y \<le> ?hi" by simp_all
    have "(y - ?lo') / (?hi' - ?lo') \<le> (y - ?lo) / (?hi - ?lo)"
      using b(1) b(2) y assms(5) assms(6) by (rule norm_other_le)
    moreover have "?cf ! j = Num ((y - ?lo) / (?hi - ?lo))"
      using Some assms(9) ne(1) by simp
    moreover have "?cf' ! j = Num ((y - ?lo') / (?hi' - ?lo'))"
      using Some same assms(9) ne(2) by simp
    ultimately show ?thesis by blast
  qed
  have len: "length ?cf = length labels" "length ?cf' = length labels" by simp_all
  from e1 e2 len i1 i2 i3 j3 show ?thesis by blast
qed


lemma nargsort_desc_mem:
  "sorts_ascending argsort \<Longrightarrow> i < length items \<Longrightarrow> i \<in> set (nargsort_desc argsort items)"
  using nargsort_desc_perm [of argsort items] by simp

lemma set_takeWhile_prefix:
  "set (takeWhile P ys) \<subseteq> set (takeWhile P (ys @ zs))"
proof (cases "\<forall>x\<in>set ys. P x")
  case True
  then show ?thesis by (auto dest: set_takeWhileD)
next
  case False
  then obtain x where "x \<in> set ys" "\<not> P x" by blast
  then show ?thesis by (simp add: takeWhile_append1)
qed

lemma precedes_head: "precedes a b (head n xs) \<Longrightarrow> precedes a b xs"
proof -
  assume p: "precedes a b (head n xs)"
  obtain m where h: "head n xs = take m xs" using head_take by blast
  have "set (takeWhile (\<lambda>x. x \<noteq> b) (take m xs)) \<subseteq>
        set (takeWhile (\<lambda>x. x \<noteq> b) (take m xs @ drop m xs))"
    by (rule set_takeWhile_prefix)
  with p h show ?thesis by (auto simp: precedes_def)
qed

lemma score_le_blend:
  assumes "0 < alpha" and "n \<le> n'"
  shows "score_le (fadd (fmul (Num alpha) (Num n)) (fmul (Num (1 - alpha)) c))
                  (fadd (fmul (Num alpha) (Num n')) (fmul (Num (1 - alpha)) c))"
  using assms by (cases c) (simp_all add: mult_left_mono)

text \<open>What the two orders say of two entries whose scores moved apart.\<close>

lemma moved_apart_ranks:
  assumes "score_le x x'" and "score_le y' y"
    and "ranks_before (x, i) (y, j)" and "x \<noteq> y"
  shows "\<not> ranks_before (y', j) (x', i)"
  using assms by (cases x; cases y; cases x'; cases y') auto

lemma moved_apart_stable:
  assumes "score_le x x'" and "score_le y' y"
    and "stably_before (x, i) (y, j)"
  shows "\<not> stably_before (y', j) (x', i)"
  using assms by (cases x; cases y; cases x'; cases y') auto

lemma rank_kept:
  assumes srt: "sorts_ascending argsort"
    and len: "length hs = n" "length hs' = n"
    and ij: "i < n" "j < n" "i \<noteq> j"
    and si: "score_le (hs ! i) (hs' ! i)" and sj: "score_le (hs' ! j) (hs ! j)"
  shows "(precedes i j (nargsort_desc argsort hs) \<and> hs ! i \<noteq> hs ! j \<longrightarrow>
            precedes i j (nargsort_desc argsort hs')) \<and>
         (stable_ascending argsort \<and> precedes i j (nargsort_desc argsort hs) \<longrightarrow>
            precedes i j (nargsort_desc argsort hs')) \<and>
         (precedes i j (top_idx argsort hs m) \<and>
          (hs ! i \<noteq> hs ! j \<or> stable_ascending argsort) \<longrightarrow>
            \<not> precedes j i (top_idx argsort hs' m))"
proof -
  let ?full = "nargsort_desc argsort hs" and ?full' = "nargsort_desc argsort hs'"
  have mem: "j \<in> set ?full" "i \<in> set ?full'" "j \<in> set ?full'"
    using srt len ij by (simp_all add: nargsort_desc_mem)
  have k1: "\<not> ranks_before (hs' ! j, j) (hs' ! i, i)"
    if p: "precedes i j ?full" and d: "hs ! i \<noteq> hs ! j"
    using moved_apart_ranks [OF si sj precedes_related [OF nargsort_desc_order [OF srt] p mem(1)] d] .
  have k2: "\<not> stably_before (hs' ! j, j) (hs' ! i, i)"
    if st: "stable_ascending argsort" and p: "precedes i j ?full"
    using moved_apart_stable [OF si sj precedes_related [OF nargsort_desc_stable_order [OF st] p mem(1)]] .
  have b: "precedes i j ?full'" if "precedes i j ?full" "hs ! i \<noteq> hs ! j"
    using precedesI [OF nargsort_desc_order [OF srt] mem(2) mem(3) ij(3) k1 [OF that]] .
  have c: "precedes i j ?full'" if st: "stable_ascending argsort" and p: "precedes i j ?full"
    using precedesI [OF nargsort_desc_stable_order [OF st] mem(2) mem(3) ij(3) k2 [OF st p]] .
  have d: "\<not> precedes j i (top_idx argsort hs' m)"
    if p: "precedes i j (top_idx argsort hs m)" and c: "hs ! i \<noteq> hs ! j \<or> stable_ascending argsort"
  proof
    assume q: "precedes j i (top_idx argsort hs' m)"
    from p have pf: "precedes i j ?full" unfolding top_idx_def by (rule precedes_head)
    from q have qf: "precedes j i ?full'" unfolding top_idx_def by (rule precedes_head)
    from c show False
    proof
      assume "hs ! i \<noteq> hs ! j"
      from k1 [OF pf this] precedes_related [OF nargsort_desc_order [OF srt] qf mem(2)]
      show False by contradiction
    next
      assume st: "stable_ascending argsort"
      from k2 [OF st pf] precedes_related [OF nargsort_desc_stable_order [OF st] qf mem(2)]
      show False by contradiction
    qed
  qed
  from b c d show ?thesis by blast
qed


lemma hybrid_recommend_reached:
  assumes "movie_title \<in> title ` snd ` set (filtered_movies selected_genres movies_df)"
    and "cf_norm preds_df user_id (map fst (filtered_movies selected_genres movies_df)) = Inr cf"
    and "seed_idx (filtered_movies selected_genres movies_df) movie_title = Inr idx"
    and "content_norm similarity idx (map fst (filtered_movies selected_genres movies_df)) = Inr ct"
  shows "hybrid_recommend argsort fetch_poster fetch_trailer selected_genres
           user_id movie_title movies_df preds_df similarity top_n alpha =
         Inr (map (rec_row fetch_poster fetch_trailer (filtered_movies selected_genres movies_df)
                     (hybrid_scores alpha cf ct))
                (top_idx argsort (hybrid_scores alpha cf ct) top_n))"
proof -
  have t: "movie_title \<in> set (map (title \<circ> snd) (filtered_movies selected_genres movies_df))"
    using assms(1) by (simp add: image_image)
  show ?thesis
    using t assms(2-4) by (simp add: hybrid_recommend_def Let_def recommendations_def)
qed

text \<open>
  C8 (as amended). Fix \<open>alpha > 0\<close>, a seed title among the candidates and a known user
  whose CF row has no repeated label, is not constant and lies, like the seed's
  similarity row, within \<open>within_machine_range\<close>. Raise the raw CF score of one
  candidate \<open>i\<close> to a value in that range, leaving the rest of the row as it is and the
  minimum of the row where it was. Both calls return the first \<open>top_n\<close> rows of the
  ranking by their blended scores \<open>hs\<close> and \<open>hs'\<close>. The blended score of \<open>i\<close> does not
  fall and the blended score of any other candidate \<open>j\<close> does not rise. If \<open>i\<close> stood
  before \<open>j\<close> in the ranking with a different score, it still stands before \<open>j\<close>; with a
  stable sort, if \<open>i\<close> stood before \<open>j\<close> at all, it still does; and in both cases \<open>j\<close>
  does not stand before \<open>i\<close> in the returned rows. A raise that moves the minimum of the
  row is left out: it rescales the score of every other candidate, and the theorem's
  inequalities for them would rest on exact division.
\<close>

theorem cf_increase_keeps_rank:
  assumes "sorts_ascending argsort" and "0 < alpha"
    and "fm = filtered_movies selected_genres movies_df"
    and "movie_title \<in> title ` snd ` set fm"
    and "preds_df user_id = Some r" and "distinct (map fst r)"
    and "k < length r" and "snd (r ! k) < v"
    and "within_machine_range (v # map snd r)"
    and "Min (snd ` set r) < Max (snd ` set r)"
    and "Min (snd ` set (r[k := (fst (r ! k), v)])) = Min (snd ` set r)"
    and "preds_df' = preds_df(user_id \<mapsto> r[k := (fst (r ! k), v)])"
    and "cf_norm preds_df user_id (map fst fm) = Inr cf"
    and "cf_norm preds_df' user_id (map fst fm) = Inr cf'"
    and "seed_idx fm movie_title = Inr idx"
    and "content_norm similarity idx (map fst fm) = Inr ct"
    and "within_machine_range (similarity ! idx)"
    and "hs = hybrid_scores alpha cf ct" and "hs' = hybrid_scores alpha cf' ct"
    and "i < length fm" and "fst (fm ! i) = fst (r ! k)"
    and "j < length fm" and "fst (fm ! j) \<noteq> fst (r ! k)"
  shows "hybrid_recommend argsort fetch_poster fetch_trailer selected_genres
           user_id movie_title movies_df preds_df similarity top_n alpha =
           Inr (map (rec_row fetch_poster fetch_trailer fm hs) (top_idx argsort hs top_n)) \<and>
         hybrid_recommend argsort fetch_poster fetch_trailer selected_genres
           user_id movie_title movies_df preds_df' similarity top_n alpha =
           Inr (map (rec_row fetch_poster fetch_trailer fm hs') (top_idx argsort hs' top_n)) \<and>
         score_le (hs ! i) (hs' ! i) \<and> score_le (hs' ! j) (hs ! j) \<and>
         (precedes i j (nargsort_desc argsort hs) \<and> hs ! i \<noteq> hs ! j \<longrightarrow>
            precedes i j (nargsort_desc argsort hs')) \<and>
         (stable_ascending argsort \<and> precedes i j (nargsort_desc argsort hs) \<longrightarrow>
            precedes i j (nargsort_desc argsort hs')) \<and>
         (precedes i j (top_idx argsort hs top_n) \<and>
          (hs ! i \<noteq> hs ! j \<or> stable_ascending argsort) \<longrightarrow>
            \<not> precedes j i (top_idx argsort hs' top_n))"
proof -
  let ?r' = "r[k := (fst (r ! k), v)]"
  let ?labels = "map fst fm"
  have li: "i < length ?labels" "?labels ! i = fst (r ! k)"
    and lj: "j < length ?labels" "?labels ! j \<noteq> fst (r ! k)"
    using assms(20-23) by simp_all
  have nc': "Min (snd ` set ?r') < Max (snd ` set ?r')"
    using raised_bounds(2) [OF assms(6,7,8)] assms(10,11) by simp
  from cf_raised [where preds_df = preds_df and user_id = user_id and labels = ?labels,
      OF assms(5,6,7,8,10) nc' li lj]
  obtain c c' n n' m m' where
    e1: "cf_norm preds_df user_id ?labels = Inr c" and
    e2: "cf_norm (preds_df(user_id \<mapsto> ?r')) user_id ?labels = Inr c'" and
    len: "length c = length ?labels" "length c' = length ?labels" and
    ci: "c ! i = Num n" "c' ! i = Num n'" "n \<le> n'" and
    cj: "c ! j = Num m" "c' ! j = Num m'" "m' \<le> m"
    by blast
  from e1 assms(13) have c: "c = cf" by simp
  from e2 assms(12,14) have c': "c' = cf'" by simp
  have lct: "length ct = length ?labels" by (rule content_norm_length [OF assms(16)])
  have lhs: "length hs = length fm" "length hs' = length fm"
    using len lct unfolding assms(18,19) c c' by (simp_all add: hybrid_scores_def)
  have si: "score_le (hs ! i) (hs' ! i)"
    unfolding assms(18,19)
    using li(1) len lct ci score_le_blend [OF assms(2) ci(3)]
    by (simp add: hybrid_scores_nth c c')
  have sj: "score_le (hs' ! j) (hs ! j)"
    unfolding assms(18,19)
    using lj(1) len lct cj score_le_blend [OF assms(2) cj(3)]
    by (simp add: hybrid_scores_nth c c')
  have neq: "i \<noteq> j" using assms(21,23) by auto
  have r1: "hybrid_recommend argsort fetch_poster fetch_trailer selected_genres
           user_id movie_title movies_df preds_df similarity top_n alpha =
           Inr (map (rec_row fetch_poster fetch_trailer fm hs) (top_idx argsort hs top_n))"
    unfolding assms(18) assms(3)
    by (rule hybrid_recommend_reached) (use assms(3,4,13,15,16) in simp_all)
  have r2: "hybrid_recommend argsort fetch_poster fetch_trailer selected_genres
           user_id movie_title movies_df preds_df' similarity top_n alpha =
           Inr (map (rec_row fetch_poster fetch_trailer fm hs') (top_idx argsort hs' top_n))"
    unfolding assms(19) assms(3)
    by (rule hybrid_recommend_reached) (use assms(3,4,14,15,16) in simp_all)
  from rank_kept [OF assms(1) lhs assms(20,22) neq si sj, of top_n] r1 r2 si sj
  show ?thesis by simp
qed

lemma nargsort_h5_raised:
  "nargsort_desc insertion_argsort [Num (39/40), Num (1/40), Num (3/10), Num (1/10), Num (31/80)]
     = [0, 4, 2, 3, 1]"
  by (simp add: nargsort_desc_def insertion_argsort_def Let_def upt_rec)

theorem cf_increase_keeps_rank_witness:
  "sorts_ascending insertion_argsort \<and> (0::rat) < 1/10 \<and>
   ''A'' \<in> title ` snd ` set (filtered_movies [] catalog5) \<and>
   preds5 7 = Some [(0, 4), (1, 2), (2, 5), (3, 1), (4, 3)] \<and>
   distinct (map fst [(0::nat, 4::rat), (1, 2), (2, 5), (3, 1), (4, 3)]) \<and>
   4 < length [(0::nat, 4::rat), (1, 2), (2, 5), (3, 1), (4, 3)] \<and>
   snd ([(0::nat, 4::rat), (1, 2), (2, 5), (3, 1), (4, 3)] ! 4) < 9/2 \<and>
   within_machine_range (9/2 # map snd [(0::nat, 4::rat), (1, 2), (2, 5), (3, 1), (4, 3)]) \<and>
   Min (snd ` set [(0::nat, 4::rat), (1, 2), (2, 5), (3, 1), (4, 3)]) <
     Max (snd ` set [(0::nat, 4::rat), (1, 2), (2, 5), (3, 1), (4, 3)]) \<and>
   Min (snd ` set [(0::nat, 4::rat), (1, 2), (2, 5), (3, 1), (4, 9/2)]) =
     Min (snd ` set [(0::nat, 4::rat), (1, 2), (2, 5), (3, 1), (4, 3)]) \<and>
   cf_norm preds5 7 (map fst (filtered_movies [] catalog5)) =
     Inr [Num (3/4), Num (1/4), Num 1, Num 0, Num (1/2)] \<and>
   cf_norm (preds5(7 \<mapsto> [(0, 4), (1, 2), (2, 5), (3, 1), (4, 9/2)])) 7
     (map fst (filtered_movies [] catalog5)) =
     Inr [Num (3/4), Num (1/4), Num 1, Num 0, Num (7/8)] \<and>
   seed_idx (filtered_movies [] catalog5) ''A'' = Inr 0 \<and>
   content_norm similarity5 0 (map fst (filtered_movies [] catalog5)) =
     Inr [Num 1, Num 0, Num (2/9), Num (1/9), Num (1/3)] \<and>
   within_machine_range (similarity5 ! 0) \<and>
   4 < length (filtered_movies [] catalog5) \<and>
   fst (filtered_movies [] catalog5 ! 4) =
     fst ([(0::nat, 4::rat), (1, 2), (2, 5), (3, 1), (4, 3)] ! 4) \<and>
   2 < length (filtered_movies [] catalog5) \<and>
   fst (filtered_movies [] catalog5 ! 2) \<noteq>
     fst ([(0::nat, 4::rat), (1, 2), (2, 5), (3, 1), (4, 3)] ! 4) \<and>
   map rec_title (projr (hybrid_recommend insertion_argsort no_url no_url [] 7 ''A'' catalog5
     preds5 similarity5 3 (1/10))) = [''A'', ''E'', ''C''] \<and>
   map rec_title (projr (hybrid_recommend insertion_argsort no_url no_url [] 7 ''A'' catalog5
     (preds5(7 \<mapsto> [(0, 4), (1, 2), (2, 5), (3, 1), (4, 9/2)])) similarity5 3 (1/10))) =
     [''A'', ''E'', ''C''] \<and>
   precedes 4 2 (nargsort_desc insertion_argsort
     [Num (39/40), Num (1/40), Num (3/10), Num (1/10), Num (7/20)]) \<and>
   precedes 4 2 (nargsort_desc insertion_argsort
     [Num (39/40), Num (1/40), Num (3/10), Num (1/10), Num (31/80)])"
proof -
  let ?r = "[(0::nat, 4::rat), (1, 2), (2, 5), (3, 1), (4, 3)]"
  let ?r' = "[(0::nat, 4::rat), (1, 2), (2, 5), (3, 1), (4, 9/2)]"
  let ?fm = "filtered_movies [] catalog5"
  let ?cf = "[Num (3/4), Num (1/4), Num 1, Num 0, Num (1/2)]"
  let ?cf' = "[Num (3/4), Num (1/4), Num 1, Num 0, Num (7/8)]"
  let ?ct = "[Num 1, Num 0, Num (2/9), Num (1/9), Num (1/3)]"
  let ?hs = "[Num (39/40), Num (1/40), Num (3/10), Num (1/10), Num (7/20)]"
  let ?hs' = "[Num (39/40), Num (1/40), Num (3/10), Num (1/10), Num (31/80)]"
  have upd: "?r[4 := (fst (?r ! 4), 9/2)] = ?r'" by simp
  have h1: "sorts_ascending insertion_argsort" by (rule insertion_argsort_sorts)
  have h2: "(0::rat) < 1/10" by simp
  have h4: "''A'' \<in> title ` snd ` set ?fm" by (simp add: filtered_catalog5_all)
  have h5: "preds5 7 = Some ?r" by (simp add: preds5_def)
  have h6: "distinct (map fst ?r)" by simp
  have h7: "4 < length ?r" by simp
  have h8: "snd (?r ! 4) < 9/2" by simp
  have h9: "within_machine_range (9/2 # map snd ?r)" by (simp add: within_machine_range_def)
  have h10: "Min (snd ` set ?r) < Max (snd ` set ?r)" by simp
  have h11': "Min (snd ` set ?r') = Min (snd ` set ?r)" by simp
  have h11: "Min (snd ` set (?r[4 := (fst (?r ! 4), 9/2)])) = Min (snd ` set ?r)"
    unfolding upd by (rule h11')
  have h12: "preds5(7 \<mapsto> ?r') = preds5(7 \<mapsto> ?r[4 := (fst (?r ! 4), 9/2)])"
    unfolding upd ..
  have h13: "cf_norm preds5 7 (map fst ?fm) = Inr ?cf"
    by (simp add: filtered_catalog5_all cf_norm_cases preds5_def minmax_def)
  have h14: "cf_norm (preds5(7 \<mapsto> ?r')) 7 (map fst ?fm) = Inr ?cf'"
    by (simp add: filtered_catalog5_all cf_norm_cases minmax_def)
  have h15: "seed_idx ?fm ''A'' = Inr 0" by (simp add: filtered_catalog5_all seed_idx_def)
  have h16: "content_norm similarity5 0 (map fst ?fm) = Inr ?ct"
    by (simp add: filtered_catalog5_all content_norm_def similarity5_def minmax_def)
  have h17: "within_machine_range (similarity5 ! 0)"
    by (simp add: similarity5_def within_machine_range_def)
  have h18: "?hs = hybrid_scores (1/10) ?cf ?ct" by (simp add: hybrid_scores_def)
  have h19: "?hs' = hybrid_scores (1/10) ?cf' ?ct" by (simp add: hybrid_scores_def)
  have h20: "4 < length ?fm" by (simp add: filtered_catalog5_all)
  have h21: "fst (?fm ! 4) = fst (?r ! 4)" by (simp add: filtered_catalog5_all)
  have h22: "2 < length ?fm" by (simp add: filtered_catalog5_all)
  have h23: "fst (?fm ! 2) \<noteq> fst (?r ! 4)" by (simp add: filtered_catalog5_all)
  note th = cf_increase_keeps_rank [where fetch_poster = no_url and fetch_trailer = no_url
      and top_n = 3 and preds_df = preds5 and user_id = 7,
      OF h1 h2 refl h4 h5 h6 h7 h8 h9 h10 h11 h12 h13 h14 h15 h16 h17 h18 h19 h20 h21 h22 h23]
  have before: "precedes 4 2 (nargsort_desc insertion_argsort ?hs)"
    unfolding nargsort_h5 by (simp add: precedes_def)
  have diff: "?hs ! 4 \<noteq> ?hs ! 2" by simp
  from th before diff have after: "precedes 4 2 (nargsort_desc insertion_argsort ?hs')"
    by blast
  from th have t1: "map rec_title (projr (hybrid_recommend insertion_argsort no_url no_url []
      7 ''A'' catalog5 preds5 similarity5 3 (1/10))) = [''A'', ''E'', ''C'']"
    by (simp add: top_idx_def head_def nargsort_h5 rec_row_def filtered_catalog5_all)
  from th have t2: "map rec_title (projr (hybrid_recommend insertion_argsort no_url no_url []
      7 ''A'' catalog5 (preds5(7 \<mapsto> ?r')) similarity5 3 (1/10))) = [''A'', ''E'', ''C'']"
    by (simp add: top_idx_def head_def nargsort_h5_raised rec_row_def filtered_catalog5_all)
  from h1 h2 h4 h5 h6 h7 h8 h9 h10 h11' h13 h14 h15 h16 h17 h20 h21 h22 h23 t1 t2 before after
  show ?thesis by blast
qed

text \<open>
  C8 as the spec states it fails, twice, for seed B and \<open>alpha = 1/10\<close>. With A scored 2
  and B scored 1, B ranks before A; raising B's raw score to 2 makes the row constant,
  both blended scores become NaN and the rows come out in catalog order, A before B.
  From that constant row, where A stands first, raising A's raw score to 3 gives A the
  blended score 1/10 and B 9/10: A, whose score was raised, falls behind B.
\<close>

theorem cf_increase_counterexample:
  "hybrid_recommend insertion_argsort no_url no_url [] 7 ''B'' catalog2 preds_low
     similarity2 10 (1/10) =
     Inr [\<lparr>rec_title = ''B'', poster = None, trailer = None, hybrid_score = Num (9/10),
           rec_id = 12\<rparr>,
          \<lparr>rec_title = ''A'', poster = None, trailer = None, hybrid_score = Num (1/10),
           rec_id = 11\<rparr>] \<and>
   hybrid_recommend insertion_argsort no_url no_url [] 7 ''B'' catalog2 preds_const
     similarity2 10 (1/10) =
     Inr [\<lparr>rec_title = ''A'', poster = None, trailer = None, hybrid_score = NaN, rec_id = 11\<rparr>,
          \<lparr>rec_title = ''B'', poster = None, trailer = None, hybrid_score = NaN, rec_id = 12\<rparr>] \<and>
   hybrid_recommend insertion_argsort no_url no_url [] 7 ''B'' catalog2 preds_up
     similarity2 10 (1/10) =
     Inr [\<lparr>rec_title = ''B'', poster = None, trailer = None, hybrid_score = Num (9/10),
           rec_id = 12\<rparr>,
          \<lparr>rec_title = ''A'', poster = None, trailer = None, hybrid_score = Num (1/10),
           rec_id = 11\<rparr>]"
  apply (intro conjI)
    apply (simp add: hybrid_recommend_def filtered_catalog2_all cf_norm_cases preds_low_def
      minmax_def seed_idx_def content_norm_def similarity2_def hybrid_scores_def
      recommendations_def top_idx_def head_def nargsort_low rec_row_def no_url_def)
   apply (simp add: hybrid_recommend_def filtered_catalog2_all cf_norm_cases preds_const_def
      minmax_def seed_idx_def content_norm_def similarity2_def hybrid_scores_def
      recommendations_def top_idx_def head_def nargsort_nan2 rec_row_def no_url_def)
  apply (simp add: hybrid_recommend_def filtered_catalog2_all cf_norm_cases preds_up_def
      minmax_def seed_idx_def content_norm_def similarity2_def hybrid_scores_def
      recommendations_def top_idx_def head_def nargsort_low rec_row_def no_url_def)
  done

end
